theory Spec2Isabelle
  imports Complex_Main "HOL-Library.Log_Nat"
begin

section \<open>JavaScript numbers\<close>

text \<open>
  The QML pages and \<^verbatim>\<open>tanksensor.js\<close> compute with JavaScript numbers, that is
  IEEE 754 binary64 values. A number is modelled by its exact rational value, with the
  special values as constructors of their own: \<open>NZero\<close> is the negative zero and
  \<open>Fin 0\<close> the positive one. Every arithmetic operation computes the exact rational
  result and rounds it to the nearest binary64 value, ties to even (\<open>round64\<close>).
\<close>

datatype jsnum = NaN | PInf | NInf | NZero | Fin rat

text \<open>\<open>ilog2 x\<close> is the binary exponent of a positive rational: \<open>2 powi ilog2 x \<le> x < 2 powi (ilog2 x + 1)\<close>.\<close>

definition ilog2 :: "rat \<Rightarrow> int" where
  "ilog2 x = (let (p, q) = quotient_of x; d = bitlen p - bitlen q
              in if 2 powi d \<le> x then d else d - 1)"

definition round_even :: "rat \<Rightarrow> int" where
  "round_even x = (let f = \<lfloor>x\<rfloor>; r = x - of_int f
                   in if r < 1 / 2 then f else if 1 / 2 < r then f + 1
                      else if even f then f else f + 1)"

text \<open>
  Rounding to binary64: 53 significant bits, the least exponent of the unit in the last
  place is \<open>-1074\<close> (subnormal numbers), and a rounded magnitude of \<open>2 ^ 1024\<close> or more
  overflows to an infinity. A non-zero value that rounds to zero keeps its sign.
\<close>

definition round64 :: "rat \<Rightarrow> jsnum" where
  "round64 x =
     (if x = 0 then Fin 0
      else let e = max (ilog2 \<bar>x\<bar> - 52) (- 1074);
               y = of_int (round_even (x / 2 powi e)) * 2 powi e
           in if 2 ^ 1024 \<le> \<bar>y\<bar> then (if x < 0 then NInf else PInf)
              else if y = 0 then (if x < 0 then NZero else Fin 0)
              else Fin y)"

fun neg :: "jsnum \<Rightarrow> bool" where
  "neg NInf = True"
| "neg NZero = True"
| "neg (Fin q) = (q < 0)"
| "neg _ = False"

fun is_zero :: "jsnum \<Rightarrow> bool" where
  "is_zero NZero = True"
| "is_zero (Fin q) = (q = 0)"
| "is_zero _ = False"

fun is_inf :: "jsnum \<Rightarrow> bool" where
  "is_inf PInf = True"
| "is_inf NInf = True"
| "is_inf _ = False"

fun val :: "jsnum \<Rightarrow> rat" where
  "val (Fin q) = q"
| "val _ = 0"

definition zero_of :: "bool \<Rightarrow> jsnum" where
  "zero_of s = (if s then NZero else Fin 0)"

definition inf_of :: "bool \<Rightarrow> jsnum" where
  "inf_of s = (if s then NInf else PInf)"

text \<open>The operators \<^verbatim>\<open>*\<close>, \<^verbatim>\<open>/\<close> and \<^verbatim>\<open>-\<close> on numbers.\<close>

definition js_mul :: "jsnum \<Rightarrow> jsnum \<Rightarrow> jsnum" where
  "js_mul a b =
     (if a = NaN \<or> b = NaN then NaN
      else if (is_inf a \<and> is_zero b) \<or> (is_zero a \<and> is_inf b) then NaN
      else if is_inf a \<or> is_inf b then inf_of (neg a \<noteq> neg b)
      else if is_zero a \<or> is_zero b then zero_of (neg a \<noteq> neg b)
      else round64 (val a * val b))"

definition js_div :: "jsnum \<Rightarrow> jsnum \<Rightarrow> jsnum" where
  "js_div a b =
     (if a = NaN \<or> b = NaN then NaN
      else if (is_inf a \<and> is_inf b) \<or> (is_zero a \<and> is_zero b) then NaN
      else if is_inf a \<or> is_zero b then inf_of (neg a \<noteq> neg b)
      else if is_inf b \<or> is_zero a then zero_of (neg a \<noteq> neg b)
      else round64 (val a / val b))"

definition js_sub :: "jsnum \<Rightarrow> jsnum \<Rightarrow> jsnum" where
  "js_sub a b =
     (if a = NaN \<or> b = NaN then NaN
      else if is_inf a \<and> is_inf b then (if neg a = neg b then NaN else a)
      else if is_inf a then a
      else if is_inf b then inf_of (\<not> neg b)
      else if val a = val b then (if a = NZero \<and> b \<noteq> NZero then NZero else Fin 0)
      else round64 (val a - val b))"

text \<open>
  Comparison: \<open>NaN\<close> compares false with everything, the two zeros are equal. \<open>rank\<close>
  places a number on the extended line.
\<close>

fun rank :: "jsnum \<Rightarrow> int \<times> rat" where
  "rank NInf = (- 1, 0)"
| "rank PInf = (1, 0)"
| "rank (Fin q) = (0, q)"
| "rank _ = (0, 0)"

definition js_eq :: "jsnum \<Rightarrow> jsnum \<Rightarrow> bool" where
  "js_eq a b = (a \<noteq> NaN \<and> b \<noteq> NaN \<and> rank a = rank b)"

definition js_lt :: "jsnum \<Rightarrow> jsnum \<Rightarrow> bool" where
  "js_lt a b = (a \<noteq> NaN \<and> b \<noteq> NaN \<and>
     (fst (rank a) < fst (rank b) \<or> (fst (rank a) = fst (rank b) \<and> snd (rank a) < snd (rank b))))"

definition js_le :: "jsnum \<Rightarrow> jsnum \<Rightarrow> bool" where
  "js_le a b = (js_lt a b \<or> js_eq a b)"

text \<open>
  A bus item's value is a number or \<^verbatim>\<open>undefined\<close> (\<open>None\<close>). In arithmetic and in
  comparisons \<^verbatim>\<open>undefined\<close> converts to \<open>NaN\<close>; in a condition it is false, as are
  \<open>NaN\<close> and the zeros.
\<close>

fun num_of :: "jsnum option \<Rightarrow> jsnum" where
  "num_of None = NaN"
| "num_of (Some n) = n"

fun truthy :: "jsnum option \<Rightarrow> bool" where
  "truthy None = False"
| "truthy (Some n) = (n \<noteq> NaN \<and> \<not> is_zero n)"

text \<open>Strict equality \<^verbatim>\<open>===\<close> of a value with a number.\<close>

fun strict_eq :: "jsnum option \<Rightarrow> jsnum \<Rightarrow> bool" where
  "strict_eq None n = False"
| "strict_eq (Some m) n = js_eq m n"

section \<open>The conversions of an engine that are not modelled\<close>

text \<open>
  Two conversions of the JavaScript engine are modelled only where their result is a
  plain decimal integer: a number to a string and a string to a number. Outside of that
  the result is whatever the engine parameter gives.
\<close>

record engine =
  num_to_string :: "rat \<Rightarrow> string"
  string_to_num :: "string \<Rightarrow> jsnum"

definition digit_char :: "nat \<Rightarrow> char" where
  "digit_char d = char_of (48 + d)"

definition is_digit :: "char \<Rightarrow> bool" where
  "is_digit c = (48 \<le> (of_char c :: nat) \<and> (of_char c :: nat) \<le> 57)"

definition digit_val :: "char \<Rightarrow> nat" where
  "digit_val c = of_char c - 48"

fun digits :: "nat \<Rightarrow> string" where
  "digits n = (if n < 10 then [digit_char n] else digits (n div 10) @ [digit_char (n mod 10)])"

declare digits.simps [simp del]

definition digits_val :: "string \<Rightarrow> nat" where
  "digits_val s = foldl (\<lambda>acc c. 10 * acc + digit_val c) 0 s"

text \<open>
  \<^verbatim>\<open>String(x)\<close> as \<^verbatim>\<open>join\<close> applies it: an integer up to \<open>2 ^ 53\<close> in magnitude is
  written in decimal digits. (A larger one is written with the fewest digits that
  still denote it, which is left to the engine.)
\<close>

definition ToString :: "engine \<Rightarrow> jsnum \<Rightarrow> string" where
  "ToString eng x =
     (case x of
        NaN \<Rightarrow> ''NaN''
      | PInf \<Rightarrow> ''Infinity''
      | NInf \<Rightarrow> ''-Infinity''
      | NZero \<Rightarrow> ''0''
      | Fin q \<Rightarrow>
          if of_int \<lfloor>q\<rfloor> = q \<and> \<bar>q\<bar> \<le> 2 ^ 53
          then (if q < 0 then ''-'' else '''') @ digits (nat \<bar>\<lfloor>q\<rfloor>\<bar>)
          else num_to_string eng q)"

text \<open>
  The unary \<^verbatim>\<open>+\<close> on a string: the empty string is 0, and an optionally signed string
  of decimal digits of value at most \<open>2 ^ 53\<close> is that integer, which binary64 holds
  exactly.
\<close>

definition unsigned_num :: "string \<Rightarrow> nat option" where
  "unsigned_num s =
     (if s \<noteq> [] \<and> list_all is_digit s \<and> digits_val s \<le> 2 ^ 53
      then Some (digits_val s) else None)"

definition ToNumber :: "engine \<Rightarrow> string \<Rightarrow> jsnum" where
  "ToNumber eng s =
     (if s = [] then Fin 0
      else if hd s = CHR ''-'' then
        (case unsigned_num (tl s) of
           Some n \<Rightarrow> if n = 0 then NZero else Fin (- of_nat n)
         | None \<Rightarrow> string_to_num eng s)
      else if hd s = CHR ''+'' then
        (case unsigned_num (tl s) of
           Some n \<Rightarrow> Fin (of_nat n)
         | None \<Rightarrow> string_to_num eng s)
      else
        (case unsigned_num s of
           Some n \<Rightarrow> Fin (of_nat n)
         | None \<Rightarrow> string_to_num eng s))"

text \<open>
  \<^verbatim>\<open>x.toFixed(f)\<close> for \<open>0 \<le> f \<le> 20\<close>: the integer \<open>n\<close> nearest to \<open>x * 10 ^ f\<close>, the
  larger one of two, written with \<open>f\<close> digits after the point. A magnitude of \<open>10 ^ 21\<close>
  or more is written as \<^verbatim>\<open>String(x)\<close> writes it.
\<close>

definition fixed_digits :: "rat \<Rightarrow> nat \<Rightarrow> string" where
  "fixed_digits a f =
     (let n = nat \<lfloor>a * 10 ^ f + 1 / 2\<rfloor>;
          m = digits n
      in if f = 0 then m
         else let m' = replicate (f + 1 - length m) (CHR ''0'') @ m;
                  k = length m'
              in take (k - f) m' @ ''.'' @ drop (k - f) m')"

definition toFixed :: "engine \<Rightarrow> jsnum \<Rightarrow> nat \<Rightarrow> string" where
  "toFixed eng x f =
     (case x of
        NaN \<Rightarrow> ''NaN''
      | PInf \<Rightarrow> ''Infinity''
      | NInf \<Rightarrow> ''-Infinity''
      | NZero \<Rightarrow> fixed_digits 0 f
      | Fin q \<Rightarrow>
          (if q < 0 then ''-'' else '''') @
          (if 10 ^ 21 \<le> \<bar>q\<bar> then num_to_string eng \<bar>q\<bar> else fixed_digits \<bar>q\<bar> f))"

text \<open>\<^verbatim>\<open>s.split(c)\<close> with a one-character separator, and \<^verbatim>\<open>a.join(sep)\<close> on strings.\<close>

fun split :: "char \<Rightarrow> string \<Rightarrow> string list" where
  "split c [] = [[]]"
| "split c (x # xs) =
     (if x = c then [] # split c xs
      else (case split c xs of
              [] \<Rightarrow> [[x]]
            | y # ys \<Rightarrow> (x # y) # ys))"

fun join :: "string \<Rightarrow> string list \<Rightarrow> string" where
  "join sep [] = []"
| "join sep [x] = x"
| "join sep (x # y # ys) = x @ sep @ join sep (y # ys)"

section \<open>tanksensor.js\<close>

record volume_format =
  precision :: nat
  stepSize :: jsnum
  unit :: string
  factor :: jsnum

text \<open>
  A numeric literal denotes the binary64 value nearest to its decimal value: \<open>1000.0\<close>
  and \<open>1\<close> are exact, \<open>219.969157\<close>, \<open>264.172052\<close> and \<open>0.005\<close> are rounded.
\<close>

definition getVolumeFormat :: "jsnum option \<Rightarrow> volume_format" where
  "getVolumeFormat u =
     (if strict_eq u (Fin 1) then
        \<lparr>precision = 0, stepSize = Fin 1, unit = ''L'', factor = Fin 1000\<rparr>
      else if strict_eq u (Fin 2) then
        \<lparr>precision = 0, stepSize = Fin 1, unit = ''gal'',
         factor = round64 (219969157 / 1000000)\<rparr>
      else if strict_eq u (Fin 3) then
        \<lparr>precision = 0, stepSize = Fin 1, unit = ''gal'',
         factor = round64 (264172052 / 1000000)\<rparr>
      else
        \<lparr>precision = 3, stepSize = round64 (5 / 1000), unit = ''m<sup>3</sup>'',
         factor = Fin 1\<rparr>)"

definition volumeConvertToSI :: "jsnum option \<Rightarrow> jsnum \<Rightarrow> jsnum" where
  "volumeConvertToSI u volume = js_div volume (factor (getVolumeFormat u))"

definition volumeConvertFromSI :: "jsnum option \<Rightarrow> jsnum \<Rightarrow> jsnum" where
  "volumeConvertFromSI u volume = js_mul volume (factor (getVolumeFormat u))"

text \<open>The volume is a number, or \<open>None\<close> for \<^verbatim>\<open>undefined\<close>.\<close>

definition formatVolume :: "engine \<Rightarrow> jsnum option \<Rightarrow> jsnum option \<Rightarrow> string" where
  "formatVolume eng u volume =
     (let fmt = getVolumeFormat u
      in case volume of
           None \<Rightarrow> ''--''
         | Some v \<Rightarrow> toFixed eng (volumeConvertFromSI u v) (precision fmt) @ unit fmt)"

text \<open>A point is the array of the numbers between the colons.\<close>

type_synonym point = "jsnum list"

definition stringToPointArray :: "engine \<Rightarrow> string option \<Rightarrow> point list" where
  "stringToPointArray eng str =
     (case str of
        None \<Rightarrow> []
      | Some s \<Rightarrow>
          if length s \<noteq> 0
          then map (\<lambda>t. map (ToNumber eng) (split (CHR '':'') t)) (split (CHR '','') s)
          else [])"

definition pointArrayToString :: "engine \<Rightarrow> point list \<Rightarrow> string" where
  "pointArrayToString eng a = join '','' (map (\<lambda>x. join '':'' (map (ToString eng) x)) a)"

section \<open>TileTank.qml\<close>

text \<open>
  The tile reads bus items. An item has a value or none (\<^verbatim>\<open>undefined\<close>), and it is valid
  when it has a value. \<open>levelText\<close> is the text the level item renders of its value, and
  \<open>rootWidth\<close> the width the tile is given.
\<close>

record tile =
  levelItem :: "jsnum option"
  levelText :: string
  fluidTypeItem :: "jsnum option"
  connectedItem :: "jsnum option"
  nameItem :: "string option"
  remainingItem :: "jsnum option"
  volumeUnit :: "jsnum option"
  rootWidth :: jsnum

definition valid :: "'a option \<Rightarrow> bool" where
  "valid x = (x \<noteq> None)"

definition js_ge :: "jsnum \<Rightarrow> jsnum \<Rightarrow> bool" where
  "js_ge a b = js_le b a"

text \<open>\<^verbatim>\<open>a.indexOf(v)\<close> compares with strict equality and gives \<open>-1\<close> when nothing matches.\<close>

fun indexOf_from :: "jsnum list \<Rightarrow> jsnum option \<Rightarrow> int \<Rightarrow> int" where
  "indexOf_from [] v i = - 1"
| "indexOf_from (x # xs) v i = (if strict_eq v x then i else indexOf_from xs v (i + 1))"

definition indexOf :: "jsnum list \<Rightarrow> jsnum option \<Rightarrow> int" where
  "indexOf xs v = indexOf_from xs v 0"

text \<open>
  \<^verbatim>\<open>a[n]\<close> with a number as the index: the element when \<open>n\<close> is an integer within the
  array (the negative zero is index 0), \<^verbatim>\<open>undefined\<close> otherwise.
\<close>

definition js_index :: "'a list \<Rightarrow> jsnum option \<Rightarrow> 'a option" where
  "js_index xs n =
     (case n of
        Some NZero \<Rightarrow> (if xs = [] then None else Some (xs ! 0))
      | Some (Fin q) \<Rightarrow>
          if of_int \<lfloor>q\<rfloor> = q \<and> 0 \<le> q \<and> nat \<lfloor>q\<rfloor> < length xs
          then Some (xs ! nat \<lfloor>q\<rfloor>) else None
      | _ \<Rightarrow> None)"

definition fullWarningLevel :: "tile \<Rightarrow> jsnum" where
  "fullWarningLevel t = (if indexOf [Fin 2, Fin 5] (fluidTypeItem t) > - 1 then Fin 80 else Fin 101)"

definition emptyWarningLevel :: "tile \<Rightarrow> jsnum" where
  "emptyWarningLevel t =
     (if \<not> (indexOf [Fin 2, Fin 5] (fluidTypeItem t) > - 1) then Fin 20 else Fin (- 1))"

definition tile_fluidTypes :: "(string \<Rightarrow> string) \<Rightarrow> string list" where
  "tile_fluidTypes qsTr =
     [qsTr ''FUEL'', qsTr ''FRESH WATER'', qsTr ''WASTE WATER'', qsTr ''LIVE WELL'',
      qsTr ''OIL'', qsTr ''BLACK WATER'']"

definition fluidColor :: "string list" where
  "fluidColor = [''#1abc9c'', ''#4aa3df'', ''#95a5a6'', ''#dcc6e0'', ''#f1a9a0'', ''#7f8c8d'']"

definition tile_color :: "tile \<Rightarrow> string option" where
  "tile_color t =
     (if valid (fluidTypeItem t) then js_index fluidColor (fluidTypeItem t) else Some ''#4aa3df'')"

text \<open>The title: \<open>None\<close> is the \<^verbatim>\<open>undefined\<close> that an index outside of the array gives.\<close>

definition titleField_text :: "(string \<Rightarrow> string) \<Rightarrow> tile \<Rightarrow> string option" where
  "titleField_text qsTr t =
     (if valid (nameItem t) \<and> nameItem t \<noteq> Some ''''
      then nameItem t
      else if valid (fluidTypeItem t) then js_index (tile_fluidTypes qsTr) (fluidTypeItem t)
      else Some ''TANK ?'')"

text \<open>The bar lies in the outline rectangle, which is 10 narrower than the tile.\<close>

definition valueBar_width :: "tile \<Rightarrow> jsnum" where
  "valueBar_width t =
     (if js_ge (num_of (levelItem t)) (Fin 0)
      then js_sub (js_mul (js_div (num_of (levelItem t)) (Fin 100)) (js_sub (rootWidth t) (Fin 10)))
             (Fin 2)
      else Fin 0)"

definition valueBar_color :: "tile \<Rightarrow> string" where
  "valueBar_color t =
     (if js_ge (num_of (levelItem t)) (fullWarningLevel t) \<or>
         js_le (num_of (levelItem t)) (emptyWarningLevel t)
      then ''#e74c3c'' else ''#34495e'')"

definition valueBar_opacity :: "tile \<Rightarrow> jsnum" where
  "valueBar_opacity t = (if truthy (connectedItem t) then Fin 1 else round64 (2 / 10))"

definition status_text :: "engine \<Rightarrow> tile \<Rightarrow> string" where
  "status_text eng t =
     (if \<not> truthy (connectedItem t) then ''NO RESPONSE''
      else if js_ge (num_of (levelItem t)) (Fin 0)
      then levelText t @ '' '' @ formatVolume eng (volumeUnit t) (remainingItem t)
      else ''ERROR'')"

definition status_color :: "tile \<Rightarrow> string" where
  "status_color t =
     (if \<not> truthy (connectedItem t) then ''red''
      else if js_le (num_of (levelItem t)) (emptyWarningLevel t) then ''red''
      else ''white'')"

section \<open>PageTankSensor.qml\<close>

record MbOption =
  description :: string
  opt_value :: jsnum

definition fluidTypes :: "(string \<Rightarrow> string) \<Rightarrow> MbOption list" where
  "fluidTypes qsTr =
     [\<lparr>description = qsTr ''Fuel'', opt_value = Fin 0\<rparr>,
      \<lparr>description = qsTr ''Fresh water'', opt_value = Fin 1\<rparr>,
      \<lparr>description = qsTr ''Waste water'', opt_value = Fin 2\<rparr>,
      \<lparr>description = qsTr ''Live well'', opt_value = Fin 3\<rparr>,
      \<lparr>description = qsTr ''Oil'', opt_value = Fin 4\<rparr>,
      \<lparr>description = qsTr ''Black water (sewage)'', opt_value = Fin 5\<rparr>]"

text \<open>The loop of \<^verbatim>\<open>fluidTypeText\<close> over the options that are left.\<close>

fun fluidTypeText_loop :: "(string \<Rightarrow> string) \<Rightarrow> MbOption list \<Rightarrow> jsnum option \<Rightarrow> string" where
  "fluidTypeText_loop qsTr [] v = qsTr ''Unknown''"
| "fluidTypeText_loop qsTr (option # rest) v =
     (if strict_eq v (opt_value option) then description option
      else fluidTypeText_loop qsTr rest v)"

definition fluidTypeText :: "(string \<Rightarrow> string) \<Rightarrow> jsnum option \<Rightarrow> string" where
  "fluidTypeText qsTr v = fluidTypeText_loop qsTr (fluidTypes qsTr) v"

record tank_page =
  customName :: "string option"
  connection :: "string option"
  fluidType :: "jsnum option"
  service_description :: string

definition getTitle :: "(string \<Rightarrow> string) \<Rightarrow> tank_page \<Rightarrow> string" where
  "getTitle qsTr pg =
     (case (if valid (customName pg) \<and> customName pg \<noteq> Some '''' then customName pg else None) of
        Some name \<Rightarrow> name
      | None \<Rightarrow>
          let inputNumber = (if valid (connection pg)
                             then (case connection pg of Some c \<Rightarrow> filter is_digit c | None \<Rightarrow> '''')
                             else '''');
              inputNumberStr = (if inputNumber \<noteq> '''' then '' ('' @ inputNumber @ '')'' else '''')
          in if valid (fluidType pg)
             then fluidTypeText qsTr (fluidType pg) @ qsTr '' tank'' @ inputNumberStr
             else service_description pg @ inputNumberStr)"

section \<open>PageTankShapeAddPoint.qml and PageTankShape.qml\<close>

text \<open>
  The integers that binary64 holds exactly, up to \<open>2 ^ 53\<close> in magnitude. The conversions
  between such a number and its decimal string are modelled in full.
\<close>

definition safe_integer :: "jsnum \<Rightarrow> bool" where
  "safe_integer x = (case x of Fin q \<Rightarrow> of_int \<lfloor>q\<rfloor> = q \<and> \<bar>q\<bar> \<le> 2 ^ 53 | _ \<Rightarrow> False)"

text \<open>
  A number converts back when the string that the engine writes for it reads as the same
  number, and, as every numeral, is not empty and has no colon and no comma in it.
\<close>

definition converts_back :: "engine \<Rightarrow> jsnum \<Rightarrow> bool" where
  "converts_back eng n =
     (ToNumber eng (ToString eng n) = n \<and> ToString eng n \<noteq> [] \<and>
      CHR '':'' \<notin> set (ToString eng n) \<and> CHR '','' \<notin> set (ToString eng n))"

text \<open>An array of pairs of numbers with a property.\<close>

definition pairs_of :: "(jsnum \<Rightarrow> bool) \<Rightarrow> point list \<Rightarrow> bool" where
  "pairs_of P a = (\<forall>p \<in> set a. length p = 2 \<and> (\<forall>n \<in> set p. P n))"

text \<open>
  What a page function does to the stored shape: it shows a toast and returns, it
  writes the shape and leaves the page, or it opens the page that adds a point.
\<close>

datatype outcome = Toast string | Stored string | Pushed

fun shape_after :: "string option \<Rightarrow> outcome \<Rightarrow> string option" where
  "shape_after shape (Stored s) = Some s"
| "shape_after shape _ = shape"

text \<open>An element of a point; a missing one is \<^verbatim>\<open>undefined\<close>, \<open>NaN\<close> as a number.\<close>

definition elem :: "point \<Rightarrow> nat \<Rightarrow> jsnum" where
  "elem p i = (if i < length p then p ! i else NaN)"

text \<open>
  \<^verbatim>\<open>p.sort(function(a, b) { return a[0] - b[0] })\<close>, as an insertion sort: a point goes
  in front of the first point that the comparison puts after it. On levels that are
  pairwise different numbers every correct sort gives this result.
\<close>

fun insert_point :: "point \<Rightarrow> point list \<Rightarrow> point list" where
  "insert_point x [] = [x]"
| "insert_point x (y # ys) =
     (if js_lt (Fin 0) (js_sub (elem y 0) (elem x 0)) then x # y # ys
      else y # insert_point x ys)"

definition sort_points :: "point list \<Rightarrow> point list" where
  "sort_points ps = foldl (\<lambda>acc p. insert_point p acc) [] ps"

text \<open>The loop of \<^verbatim>\<open>addPoint\<close> over neighbours: the first toast, or none.\<close>

fun check_points :: "(string \<Rightarrow> string) \<Rightarrow> point list \<Rightarrow> string option" where
  "check_points qsTr (a # b # rest) =
     (if js_le (elem b 0) (elem a 0)
      then Some (qsTr ''Duplicate sensor level values not allowed'')
      else if js_le (elem b 1) (elem a 1)
      then Some (qsTr ''Volume values must be increasing'')
      else check_points qsTr (b # rest))"
| "check_points qsTr _ = None"

text \<open>\<open>level\<close> and \<open>volume\<close> are the texts of the two edit boxes.\<close>

definition addPoint ::
  "(string \<Rightarrow> string) \<Rightarrow> engine \<Rightarrow> string option \<Rightarrow> string \<Rightarrow> string \<Rightarrow> outcome" where
  "addPoint qsTr eng shape level volume =
     (let lvl = ToNumber eng level; vol = ToNumber eng volume
      in if js_lt lvl (Fin 1) \<or> js_lt (Fin 99) lvl then Toast ''Invalid sensor level''
         else if js_lt vol (Fin 1) \<or> js_lt (Fin 99) vol then Toast ''Invalid volume''
         else let p = sort_points (stringToPointArray eng shape @ [[lvl, vol]])
              in case check_points qsTr p of
                   Some msg \<Rightarrow> Toast msg
                 | None \<Rightarrow> Stored (pointArrayToString eng p))"

text \<open>
  An edit box takes the characters of \<^verbatim>\<open>matchString\<close>, the ten digits, and at most
  \<^verbatim>\<open>maximumLength\<close> of them, two.
\<close>

definition editbox :: "string \<Rightarrow> bool" where
  "editbox s = (list_all is_digit s \<and> length s \<le> 2)"

text \<open>\<^verbatim>\<open>addPoint\<close> of PageTankShape.qml, the Add button of the shape page.\<close>

definition PageTankShape_addPoint :: "engine \<Rightarrow> string option \<Rightarrow> outcome" where
  "PageTankShape_addPoint eng shape =
     (if length (stringToPointArray eng shape) > 9 then Toast ''Max 10 points allowed''
      else Pushed)"

text \<open>\<^verbatim>\<open>p.splice(i, 1)\<close>: a negative index counts from the end.\<close>

definition splice1 :: "'a list \<Rightarrow> int \<Rightarrow> 'a list" where
  "splice1 xs i =
     (let n = int (length xs);
          start = nat (if i < 0 then max (n + i) 0 else min i n)
      in take start xs @ drop (start + 1) xs)"

definition removePoint :: "engine \<Rightarrow> string option \<Rightarrow> int \<Rightarrow> outcome" where
  "removePoint eng shape currentIndex =
     Stored (pointArrayToString eng (splice1 (stringToPointArray eng shape) currentIndex))"

text \<open>
  Adding a point through the two pages: the Add button of the shape page, then the two
  edit boxes and the Add button of the page it opens.
\<close>

definition add_flow ::
  "(string \<Rightarrow> string) \<Rightarrow> engine \<Rightarrow> string option \<Rightarrow> string \<Rightarrow> string \<Rightarrow> outcome" where
  "add_flow qsTr eng shape level volume =
     (case PageTankShape_addPoint eng shape of
        Pushed \<Rightarrow> addPoint qsTr eng shape level volume
      | other \<Rightarrow> other)"

text \<open>The shapes that the two pages store, from a shape that is not set or empty.\<close>

inductive stored_shape :: "(string \<Rightarrow> string) \<Rightarrow> engine \<Rightarrow> string option \<Rightarrow> bool"
  for qsTr :: "string \<Rightarrow> string" and eng :: engine where
  unset: "stored_shape qsTr eng None"
| empty: "stored_shape qsTr eng (Some '''')"
| add: "stored_shape qsTr eng shape \<Longrightarrow> editbox level \<Longrightarrow> editbox volume \<Longrightarrow>
        stored_shape qsTr eng (shape_after shape (add_flow qsTr eng shape level volume))"
| remove: "stored_shape qsTr eng shape \<Longrightarrow>
        stored_shape qsTr eng (shape_after shape (removePoint eng shape currentIndex))"

text \<open>
  The conditions on a shape: every point is a pair of integers from 1 to 99, the levels
  and the volumes both increase strictly along the sequence, and there are at most ten
  points.
\<close>

definition percent :: "jsnum \<Rightarrow> bool" where
  "percent x = (case x of Fin q \<Rightarrow> of_int \<lfloor>q\<rfloor> = q \<and> 1 \<le> q \<and> q \<le> 99 | _ \<Rightarrow> False)"

definition increasing :: "nat \<Rightarrow> point list \<Rightarrow> bool" where
  "increasing i ps = sorted_wrt (\<lambda>a b. js_lt (elem a i) (elem b i)) ps"

definition shape_ok :: "point list \<Rightarrow> bool" where
  "shape_ok ps =
     (pairs_of percent ps \<and> increasing 0 ps \<and> increasing 1 ps \<and> length ps \<le> 10)"

section \<open>The setup script\<close>

text \<open>
  The state of the platform that the script acts on: the settings of the settings
  service, whether the repeater service is installed, whether the overview page of the
  GUI is replaced by the one of the package, the log, and the two flags of the script.
\<close>

record venus =
  settings :: "string \<rightharpoonup> string"
  service_installed :: bool
  overview_replaced :: bool
  logged :: "string list"
  filesUpdated :: bool
  restartGui :: bool

datatype action = NONE | INSTALL | UNINSTALL

text \<open>
  The functions of SetupHelper, a package of its own that the script sources, by what
  they do when they succeed: write to the log, put the file of the package in place of
  the active one or the original back, and install or remove the service. Replacing or
  restoring a file that changes sets \<^verbatim>\<open>filesUpdated\<close>.
\<close>

definition logMessage :: "string \<Rightarrow> venus \<Rightarrow> venus" where
  "logMessage msg s = s\<lparr>logged := logged s @ [msg]\<rparr>"

definition updateActiveFile :: "venus \<Rightarrow> venus" where
  "updateActiveFile s =
     s\<lparr>overview_replaced := True, filesUpdated := (filesUpdated s \<or> \<not> overview_replaced s)\<rparr>"

definition restoreActiveFile :: "venus \<Rightarrow> venus" where
  "restoreActiveFile s =
     s\<lparr>overview_replaced := False, filesUpdated := (filesUpdated s \<or> overview_replaced s)\<rparr>"

definition installService :: "venus \<Rightarrow> venus" where
  "installService s = s\<lparr>service_installed := True\<rparr>"

definition removeService :: "venus \<Rightarrow> venus" where
  "removeService s = s\<lparr>service_installed := False\<rparr>"

text \<open>The \<^verbatim>\<open>RemoveSettings\<close> call of the settings service.\<close>

definition RemoveSettings :: "string list \<Rightarrow> venus \<Rightarrow> venus" where
  "RemoveSettings keys s = s\<lparr>settings := settings s |` (- set keys)\<rparr>"

definition incoming_keys :: "string list" where
  "incoming_keys =
     [''Devices/TankRepeater/IncomingTankService'', ''Devices/TankRepeater/IncomingTankProductId'']"

definition custom_name_keys :: "string list" where
  "custom_name_keys =
     [''Devices/TankRepeater/Tank0/CustomName'', ''Devices/TankRepeater/Tank1/CustomName'',
      ''Devices/TankRepeater/Tank2/CustomName'', ''Devices/TankRepeater/Tank3/CustomName'',
      ''Devices/TankRepeater/Tank4/CustomName'', ''Devices/TankRepeater/Tank5/CustomName'',
      ''Devices/TankRepeater/Tank6/CustomName'', ''Devices/TankRepeater/Tank7/CustomName'',
      ''Devices/TankRepeater/Tank8/CustomName'', ''Devices/TankRepeater/Tank9/CustomName'',
      ''Devices/TankRepeater/Tank10/CustomName'', ''Devices/TankRepeater/Tank11/CustomName'',
      ''Devices/TankRepeater/Tank12/CustomName'', ''Devices/TankRepeater/Tank13/CustomName'']"

text \<open>The branch of the script for \<^verbatim>\<open>INSTALL\<close>.\<close>

definition install :: "venus \<Rightarrow> venus" where
  "install s0 =
     (let s1 = logMessage ''++ Installing repeater'' s0;
          s2 = updateActiveFile s1;
          s3 = installService s2
      in if filesUpdated s3 then s3\<lparr>restartGui := True\<rparr> else s3)"

text \<open>
  The branch for \<^verbatim>\<open>UNINSTALL\<close>. The script reads the incoming service with
  \<^verbatim>\<open>GetValue\<close>, which prints \<^verbatim>\<open>''\<close> for the empty string, and writes the line about
  unhiding to the log when it is another one.
\<close>

definition uninstall :: "bool \<Rightarrow> venus \<Rightarrow> venus" where
  "uninstall notCompatible s0 =
     (let s1 = logMessage ''++ Uninstalling repeater'' s0;
          s2 = removeService s1;
          s3 = (if notCompatible then
                  RemoveSettings (incoming_keys @ custom_name_keys)
                    (logMessage ''removing all TankRepeater dBus settings'' s2)
                else
                  let serviceName = settings s2 ''Devices/TankRepeater/IncomingTankService'';
                      s' = (if serviceName \<noteq> None \<and> serviceName \<noteq> Some ''''
                            then logMessage ''unhiding original Tank dBus service'' s2 else s2)
                  in RemoveSettings incoming_keys s')
      in restoreActiveFile s3)"

text \<open>
  The script: \<open>scriptAction\<close> and \<open>notCompatible\<close> are what SetupHelper has set when it
  is sourced, and \<open>answer\<close> is the action that the prompt returns when the script is run
  by hand.
\<close>

definition setup_script :: "action \<Rightarrow> bool \<Rightarrow> action \<Rightarrow> venus \<Rightarrow> venus" where
  "setup_script scriptAction notCompatible answer s0 =
     (let a = (if scriptAction = NONE then answer else scriptAction);
          s1 = (if a = INSTALL then install s0 else s0);
          s2 = (if a = UNINSTALL then uninstall notCompatible s1 else s1)
      in if filesUpdated s2 then s2\<lparr>restartGui := True\<rparr> else s2)"

section \<open>The tank registry\<close>

text \<open>
  The repeater service, with its Tank Registry, is not among the sources; only the setup
  script, with the settings of its 14 slots, is. What follows is written from the
  specification.
\<close>

text \<open>
  Modelled from the spec: the \<^verbatim>\<open>TankKey\<close>, the stable identity of a tank in the incoming
  feed, of the absent repeater service; here the instance number.
\<close>

type_synonym TankKey = nat

text \<open>
  Modelled from the spec: the \<^verbatim>\<open>RegistryEntry\<close> of the absent repeater service. Its slot
  is its place in the table.
\<close>

record RegistryEntry =
  entry_key :: TankKey
  entry_customName :: string
  lastSeenMonotonic :: nat
  entry_connected :: bool

text \<open>
  Modelled from the spec: the registry of the absent repeater service, as the table of
  slot records addressed by index that the design notes ask for. A slot is free or holds
  the entry of one tank.
\<close>

type_synonym registry = "RegistryEntry option list"

text \<open>Modelled from the spec: the number of slots of the absent registry, 0 to 13.\<close>

definition slots :: nat where
  "slots = 14"

text \<open>Modelled from the spec: the absent registry before any tank is seen.\<close>

definition empty_registry :: registry where
  "empty_registry = replicate slots None"

text \<open>Modelled from the spec: the error of the absent \<^verbatim>\<open>lookupOrCreate\<close>.\<close>

datatype registry_error = CapacityExceeded

text \<open>
  Modelled from the spec: the search of the absent registry for the first slot, counted
  from \<open>i\<close>, whose content has a property; slots are given out in their order.
\<close>

fun slot_where :: "(RegistryEntry option \<Rightarrow> bool) \<Rightarrow> registry \<Rightarrow> nat \<Rightarrow> nat option" where
  "slot_where P [] i = None"
| "slot_where P (e # es) i = (if P e then Some i else slot_where P es (Suc i))"

text \<open>Modelled from the spec: a slot of the absent registry holds the entry of a key.\<close>

definition holds_key :: "TankKey \<Rightarrow> RegistryEntry option \<Rightarrow> bool" where
  "holds_key k e = (case e of Some x \<Rightarrow> entry_key x = k | None \<Rightarrow> False)"

text \<open>
  Modelled from the spec: the absent \<^verbatim>\<open>lookupOrCreate(key) -> (slot, created)\<close>. It gives
  the slot of a known key, creates an entry in the first free slot for a new one, and
  fails with \<^verbatim>\<open>CapacityExceeded\<close> when the key is new and no slot is free.
\<close>

definition lookupOrCreate ::
  "TankKey \<Rightarrow> nat \<Rightarrow> registry \<Rightarrow> registry_error + ((nat \<times> bool) \<times> registry)" where
  "lookupOrCreate k now reg =
     (case slot_where (holds_key k) reg 0 of
        Some slot \<Rightarrow> Inr ((slot, False), reg)
      | None \<Rightarrow>
          (case slot_where (\<lambda>e. e = None) reg 0 of
             Some slot \<Rightarrow>
               Inr ((slot, True),
                    reg[slot := Some \<lparr>entry_key = k, entry_customName = '''',
                                      lastSeenMonotonic = now, entry_connected = True\<rparr>])
           | None \<Rightarrow> Inl CapacityExceeded))"

text \<open>
  Modelled from the spec: the absent \<^verbatim>\<open>touch(slot)\<close>, which refreshes the time of the last
  update and sets the entry connected again.
\<close>

definition touch :: "nat \<Rightarrow> nat \<Rightarrow> registry \<Rightarrow> registry" where
  "touch slot now reg =
     (if slot < length reg
      then reg[slot := map_option (\<lambda>x. x\<lparr>lastSeenMonotonic := now, entry_connected := True\<rparr>)
                         (reg ! slot)]
      else reg)"

text \<open>Modelled from the spec: the absent \<^verbatim>\<open>remove(slot)\<close>, which frees the slot.\<close>

definition registry_remove :: "nat \<Rightarrow> registry \<Rightarrow> registry" where
  "registry_remove slot reg = reg[slot := None]"

text \<open>
  Modelled from the spec: the state of the absent coordinator, that is the registry, what
  the publisher of each slot shows, and whether the warning has been given.
\<close>

record 'r coordinator =
  the_registry :: registry
  published :: "nat \<rightharpoonup> 'r"
  warned :: bool

text \<open>
  Modelled from the spec: the absent coordinator passes an update through the registry
  to the publisher of the slot and touches the slot; an update that the registry refuses
  is dropped, with a warning that is given once.
\<close>

definition processUpdate :: "TankKey \<Rightarrow> 'r \<Rightarrow> nat \<Rightarrow> 'r coordinator \<Rightarrow> 'r coordinator" where
  "processUpdate k reading now c =
     (case lookupOrCreate k now (the_registry c) of
        Inl CapacityExceeded \<Rightarrow> c\<lparr>warned := True\<rparr>
      | Inr ((slot, created), reg) \<Rightarrow>
          c\<lparr>the_registry := touch slot now reg, published := (published c)(slot \<mapsto> reading)\<rparr>)"

text \<open>
  Modelled from the spec: the absent \<^verbatim>\<open>teardown(slot)\<close>, which unpublishes the slot and
  removes its entry.
\<close>

definition teardown :: "nat \<Rightarrow> 'r coordinator \<Rightarrow> 'r coordinator" where
  "teardown slot c =
     c\<lparr>the_registry := registry_remove slot (the_registry c),
       published := (published c)(slot := None)\<rparr>"

section \<open>Example inputs\<close>

text \<open>
  An engine that answers nothing beyond the modelled conversions, a tile of a fresh
  water tank at 55 percent that has stopped answering, a tank page, a platform with the
  repeater installed and one custom name set, and a registry with a tank in every slot.
\<close>

definition plain_engine :: engine where
  "plain_engine = \<lparr>num_to_string = (\<lambda>q. ''''), string_to_num = (\<lambda>s. NaN)\<rparr>"

definition example_tile :: tile where
  "example_tile =
     \<lparr>levelItem = Some (Fin 55), levelText = ''55%'', fluidTypeItem = Some (Fin 1),
      connectedItem = Some (Fin 0), nameItem = Some '''', remainingItem = Some (Fin (1 / 8)),
      volumeUnit = Some (Fin 1), rootWidth = Fin 150\<rparr>"

definition example_page :: tank_page where
  "example_page =
     \<lparr>customName = None, connection = Some ''Tank input 3'', fluidType = Some (Fin 1),
      service_description = ''Generic tank''\<rparr>"

definition example_venus :: venus where
  "example_venus =
     \<lparr>settings = map_of
        [(''Devices/TankRepeater/IncomingTankService'', ''com.victronenergy.tank.seelevel''),
         (''Devices/TankRepeater/IncomingTankProductId'', ''41312''),
         (''Devices/TankRepeater/Tank0/CustomName'', ''Bow'')],
      service_installed = True, overview_replaced = True, logged = [],
      filesUpdated = False, restartGui = False\<rparr>"

definition full_registry :: registry where
  "full_registry =
     map (\<lambda>k. Some \<lparr>entry_key = k, entry_customName = '''', lastSeenMonotonic = 0,
                     entry_connected = True\<rparr>) [0..<14]"

section \<open>Properties of binary64 rounding\<close>

lemma pow2_pos: "(0::rat) < 2 powi k"
  by simp

lemma pow2_mono: "j \<le> k \<Longrightarrow> (2::rat) powi j \<le> 2 powi k"
  by (rule power_int_increasing) simp_all

lemma pow2_strict_mono: "j < k \<Longrightarrow> (2::rat) powi j < 2 powi k"
  by (rule power_int_strict_increasing) simp_all

lemma pow2_add: "(2::rat) powi (j + k) = 2 powi j * 2 powi k"
  by (simp add: power_int_add)

lemma pow2_diff: "(2::rat) powi (j - k) = 2 powi j / 2 powi k"
  by (simp add: power_int_diff)

lemma bitlen_rat_bounds:
  assumes "0 < p"
  shows "(2::rat) powi (bitlen p - 1) \<le> of_int p" and "(of_int p :: rat) < 2 powi bitlen p"
proof -
  from assms have b1: "1 \<le> bitlen p"
    by (simp add: bitlen_alt_def)
  from bitlen_bounds [OF assms]
  have lo: "2 ^ nat (bitlen p - 1) \<le> p" and hi: "p < 2 ^ nat (bitlen p)"
    by simp_all
  from lo have "(of_int (2 ^ nat (bitlen p - 1)) :: rat) \<le> of_int p"
    by (simp only: of_int_le_iff)
  with b1 show "(2::rat) powi (bitlen p - 1) \<le> of_int p"
    by (simp add: power_int_def)
  from hi have "(of_int p :: rat) < of_int (2 ^ nat (bitlen p))"
    by (simp only: of_int_less_iff)
  with b1 show "(of_int p :: rat) < 2 powi bitlen p"
    by (simp add: power_int_def)
qed

lemma ilog2_bounds:
  assumes "0 < x"
  shows "2 powi ilog2 x \<le> x" and "x < 2 powi (ilog2 x + 1)"
proof -
  obtain p q where pq: "quotient_of x = (p, q)"
    by (cases "quotient_of x")
  then have q: "0 < q" and x: "x = of_int p / of_int q"
    by (simp_all add: quotient_of_denom_pos quotient_of_div)
  with assms have p: "0 < p"
    by (simp add: zero_less_divide_iff)
  define d where "d = bitlen p - bitlen q"
  have il: "ilog2 x = (if 2 powi d \<le> x then d else d - 1)"
    by (simp add: ilog2_def pq d_def Let_def)
  note bp = bitlen_rat_bounds [OF p] and bq = bitlen_rat_bounds [OF q]
  have qpos: "(0::rat) < of_int q" using q by simp
  have ppos: "(0::rat) < of_int p" using p by simp
  have up: "x < 2 powi (d + 1)"
  proof -
    have "x * of_int q = of_int p" using x qpos by simp
    also have "\<dots> < 2 powi bitlen p" by (rule bp)
    also have "\<dots> = 2 powi (d + 1) * 2 powi (bitlen q - 1)"
      by (simp add: d_def flip: pow2_add)
    also have "\<dots> \<le> 2 powi (d + 1) * of_int q"
      using bq(1) pow2_pos [of "d + 1"] by (simp add: mult_left_mono)
    finally show ?thesis using qpos by simp
  qed
  have lo: "2 powi (d - 1) \<le> x"
  proof -
    have "(2::rat) powi (d - 1) * of_int q \<le> 2 powi (d - 1) * 2 powi bitlen q"
      using bq(2) pow2_pos [of "d - 1"] by (simp add: mult_left_mono)
    also have "\<dots> = 2 powi (bitlen p - 1)"
      by (simp add: d_def flip: pow2_add)
    also have "\<dots> \<le> of_int p" by (rule bp)
    also have "\<dots> = x * of_int q" using x qpos by simp
    finally show ?thesis using qpos by simp
  qed
  show "2 powi ilog2 x \<le> x" using il lo by simp
  show "x < 2 powi (ilog2 x + 1)" using il up by (simp split: if_splits)
qed

lemma ilog2_unique:
  assumes "0 < x" "2 powi k \<le> x" "x < 2 powi (k + 1)"
  shows "ilog2 x = k"
proof (rule ccontr)
  assume ne: "ilog2 x \<noteq> k"
  note b = ilog2_bounds [OF assms(1)]
  show False
  proof (cases "ilog2 x < k")
    case True
    then have "(2::rat) powi (ilog2 x + 1) \<le> 2 powi k" by (intro pow2_mono) simp
    with b(2) assms(2) show False by simp
  next
    case False
    with ne have "(2::rat) powi (k + 1) \<le> 2 powi ilog2 x" by (intro pow2_mono) simp
    with b(1) assms(3) show False by simp
  qed
qed

lemma round_even_err: "\<bar>of_int (round_even x) - x\<bar> \<le> 1 / 2"
proof -
  have "of_int \<lfloor>x\<rfloor> \<le> x" "x < of_int \<lfloor>x\<rfloor> + 1" by linarith+
  then show ?thesis
    by (auto simp: round_even_def Let_def)
qed

lemma round_even_unique:
  assumes "\<bar>x - of_int m\<bar> < 1 / 2"
  shows "round_even x = m"
proof -
  have e: "\<bar>of_int (round_even x) - x\<bar> \<le> 1 / 2" by (rule round_even_err)
  have "\<bar>(of_int (round_even x) :: rat) - of_int m\<bar> < 1" using e assms by linarith
  then have "\<bar>(of_int (round_even x - m) :: rat)\<bar> < 1" by simp
  then have "\<bar>round_even x - m\<bar> < 1"
    by (metis of_int_abs of_int_less_1_iff)
  then show ?thesis by simp
qed

lemma round_even_of_int: "round_even (of_int m) = m"
  by (rule round_even_unique) simp


lemma round64_normal:
  assumes x: "x \<noteq> 0" and k: "ilog2 \<bar>x\<bar> = k" and lo: "- 1022 \<le> k" and hi: "k \<le> 1022"
  shows "round64 x = Fin (of_int (round_even (x / 2 powi (k - 52))) * 2 powi (k - 52))"
proof -
  define s :: rat where "s = 2 powi (k - 52)"
  define m where "m = round_even (x / s)"
  have s: "0 < s" by (simp add: s_def)
  from x have ax: "0 < \<bar>x\<bar>" by simp
  note b = ilog2_bounds [OF ax, unfolded k]
  have s52: "s * 2 ^ 52 = 2 powi k"
    by (simp add: s_def power_int_diff)
  have e: "\<bar>of_int m - x / s\<bar> \<le> 1 / 2"
    unfolding m_def by (rule round_even_err)
  have t_lo: "2 ^ 52 \<le> \<bar>x / s\<bar>"
  proof -
    have "s * 2 ^ 52 \<le> \<bar>x\<bar>" using b(1) s52 by simp
    then show ?thesis using s by (simp add: abs_mult pos_le_divide_eq mult.commute)
  qed
  have t_hi: "\<bar>x / s\<bar> < 2 ^ 53"
  proof -
    have "\<bar>x\<bar> < s * 2 ^ 52 * 2" using b(2) s52 by (simp add: power_int_add)
    then show ?thesis using s by (simp add: abs_mult pos_divide_less_eq mult.commute)
  qed
  have m_ne: "m \<noteq> 0"
  proof
    assume "m = 0"
    with e have h: "\<bar>x / s\<bar> \<le> 1 / 2" by (simp only: of_int_0 abs_minus_cancel diff_0)
    have "(1::rat) \<le> 2 ^ 52" by simp
    then have "1 \<le> \<bar>x / s\<bar>" using t_lo by (rule order_trans)
    with h show False by linarith
  qed
  have "\<bar>(of_int m :: rat)\<bar> < 2 ^ 53 + 1" using e t_hi by linarith
  then have "(of_int \<bar>m\<bar> :: rat) < of_int (2 ^ 53 + 1)" by simp
  then have "\<bar>m\<bar> < 2 ^ 53 + 1" by (simp only: of_int_less_iff)
  then have "\<bar>m\<bar> \<le> 2 ^ 53" by simp
  then have "(of_int \<bar>m\<bar> :: rat) \<le> of_int (2 ^ 53)" by (simp only: of_int_le_iff)
  then have m_hi: "\<bar>(of_int m :: rat)\<bar> \<le> 2 ^ 53" by simp
  have y_hi: "\<bar>of_int m * s\<bar> < 2 ^ 1024"
  proof -
    have "\<bar>of_int m * s\<bar> = \<bar>of_int m\<bar> * s" using s by (simp add: abs_mult)
    also have "\<dots> \<le> 2 ^ 53 * s" using m_hi s by (simp add: mult_right_mono)
    also have "\<dots> = 2 powi (k + 1)" using s52 by (simp add: power_int_add)
    also have "\<dots> \<le> 2 powi 1023" using hi by (intro pow2_mono) simp
    also have "\<dots> < 2 powi 1024" by (intro pow2_strict_mono) simp
    also have "\<dots> = 2 ^ 1024" by simp
    finally show ?thesis .
  qed
  have y_ne: "of_int m * s \<noteq> 0" using m_ne s by simp
  have "max (ilog2 \<bar>x\<bar> - 52) (- 1074) = k - 52" using k lo by simp
  then show ?thesis
    using x y_hi y_ne by (simp add: round64_def Let_def m_def [symmetric] s_def [symmetric])
qed

lemma round64_eq:
  assumes "x \<noteq> 0" "2 powi k \<le> \<bar>x\<bar>" "\<bar>x\<bar> < 2 powi (k + 1)" "- 1022 \<le> k" "k \<le> 1022"
    and "\<bar>x / 2 powi (k - 52) - of_int m\<bar> < 1 / 2"
  shows "round64 x = Fin (of_int m * 2 powi (k - 52))"
proof -
  from assms(1) have "0 < \<bar>x\<bar>" by simp
  then have "ilog2 \<bar>x\<bar> = k" using assms(2,3) by (rule ilog2_unique)
  then show ?thesis
    using assms(1,4,5) round_even_unique [OF assms(6)] by (simp add: round64_normal)
qed

lemma round64_rel_err:
  assumes lo: "2 powi (- 1022) \<le> \<bar>x\<bar>" and hi: "\<bar>x\<bar> < 2 powi 1023"
  shows "\<exists>y. round64 x = Fin y \<and> \<bar>y - x\<bar> \<le> \<bar>x\<bar> * 2 powi (- 53)"
proof -
  define k where "k = ilog2 \<bar>x\<bar>"
  define s :: rat where "s = 2 powi (k - 52)"
  have ax: "0 < \<bar>x\<bar>" using lo pow2_pos [of "- 1022"] by linarith
  then have x: "x \<noteq> 0" by simp
  note b = ilog2_bounds [OF ax, folded k_def]
  have k_lo: "- 1022 \<le> k"
  proof (rule ccontr)
    assume "\<not> - 1022 \<le> k"
    then have "(2::rat) powi (k + 1) \<le> 2 powi (- 1022)" by (intro pow2_mono) simp
    with b(2) lo show False by simp
  qed
  have k_hi: "k \<le> 1022"
  proof (rule ccontr)
    assume "\<not> k \<le> 1022"
    then have "(2::rat) powi 1023 \<le> 2 powi k" by (intro pow2_mono) simp
    with b(1) hi show False by simp
  qed
  have s: "0 < s" by (simp add: s_def)
  define m where "m = round_even (x / s)"
  have r: "round64 x = Fin (of_int m * s)"
    unfolding m_def s_def using x k_def [symmetric] k_lo k_hi by (rule round64_normal)
  have e: "\<bar>of_int m - x / s\<bar> \<le> 1 / 2"
    unfolding m_def by (rule round_even_err)
  have "of_int m * s - x = (of_int m - x / s) * s"
    using s by (simp add: left_diff_distrib)
  then have "\<bar>of_int m * s - x\<bar> = \<bar>of_int m - x / s\<bar> * s"
    using s by (simp only: abs_mult abs_of_pos)
  also have "\<dots> \<le> 1 / 2 * s" using e s by (rule mult_right_mono [OF _ less_imp_le])
  also have "\<dots> = 2 powi k * 2 powi (- 53)"
    by (simp add: s_def power_int_diff power_int_minus field_simps)
  also have "\<dots> \<le> \<bar>x\<bar> * 2 powi (- 53)"
    using b(1) by (intro mult_right_mono) simp_all
  finally show ?thesis using r by blast
qed

lemma round64_of_int:
  assumes k0: "k \<noteq> 0" and kb: "\<bar>k\<bar> < 2 ^ 53"
  shows "round64 (of_int k) = Fin (of_int k)"
proof -
  define x :: rat where "x = of_int k"
  define r where "r = ilog2 \<bar>x\<bar>"
  have x0: "x \<noteq> 0" using k0 by (simp add: x_def)
  then have ax: "0 < \<bar>x\<bar>" by simp
  note b = ilog2_bounds [OF ax, folded r_def]
  have "1 \<le> \<bar>k\<bar>" using k0 by simp
  then have "(of_int 1 :: rat) \<le> of_int \<bar>k\<bar>" by (simp only: of_int_le_iff)
  then have x1: "1 \<le> \<bar>x\<bar>" by (simp add: x_def)
  have "(of_int \<bar>k\<bar> :: rat) < of_int (2 ^ 53)" using kb by (simp only: of_int_less_iff)
  then have x53: "\<bar>x\<bar> < 2 powi 53" by (simp add: x_def)
  have r_lo: "0 \<le> r"
  proof (rule ccontr)
    assume "\<not> 0 \<le> r"
    then have "(2::rat) powi (r + 1) \<le> 2 powi 0" by (intro pow2_mono) simp
    with b(2) x1 show False by simp
  qed
  have r_hi: "r \<le> 52"
  proof (rule ccontr)
    assume "\<not> r \<le> 52"
    then have "(2::rat) powi 53 \<le> 2 powi r" by (intro pow2_mono) simp
    with b(1) x53 show False by simp
  qed
  define n where "n = nat (52 - r)"
  have p: "(2::rat) powi (r - 52) = 1 / 2 ^ n"
    using r_hi by (simp add: n_def power_int_def field_simps)
  have "x / 2 powi (r - 52) = of_int (k * 2 ^ n)"
    by (simp add: p x_def)
  then have "round_even (x / 2 powi (r - 52)) = k * 2 ^ n"
    by (simp only: round_even_of_int)
  moreover have "round64 x = Fin (of_int (round_even (x / 2 powi (r - 52))) * 2 powi (r - 52))"
    using x0 r_def [symmetric] by (rule round64_normal) (use r_lo r_hi in simp_all)
  ultimately have "round64 x = Fin (of_int (k * 2 ^ n) * 2 powi (r - 52))" by simp
  then show ?thesis by (simp add: p x_def)
qed

lemma round64_numeral:
  "numeral m < (2 ^ 53 :: int) \<Longrightarrow> round64 (numeral m) = Fin (numeral m)"
  "numeral m < (2 ^ 53 :: int) \<Longrightarrow> round64 (- numeral m) = Fin (- numeral m)"
  using round64_of_int [of "numeral m"] round64_of_int [of "- numeral m"] by simp_all

lemma factor_imperial: "round64 (219969157 / 1000000) = Fin (483717291747169 / 2199023255552)"
  using round64_eq [of "219969157 / 1000000" 7 7739476667954704]
  by (simp add: power_int_minus)

lemma factor_us: "round64 (264172052 / 1000000) = Fin (2323681943259569 / 8796093022208)"
  using round64_eq [of "264172052 / 1000000" 8 4647363886519138]
  by (simp add: power_int_minus)

section \<open>The volume format table\<close>

text \<open>
  C2. \<^verbatim>\<open>getVolumeFormat\<close> is a fixed table: selector 1 (litre) has factor 1000,
  precision 0 and step size 1; selector 2 (imperial gallon) the factor written
  \<open>219.969157\<close>, precision 0, step size 1; selector 3 (US gallon) the factor written
  \<open>264.172052\<close>, precision 0, step size 1; every other selector, \<^verbatim>\<open>undefined\<close>
  included, has factor 1, precision 3 and the step size written \<open>0.005\<close> (cubic metre).
  The two conversions divide and multiply by the factor of the selector, in the
  arithmetic of the language.
\<close>

theorem getVolumeFormat_table:
  "getVolumeFormat (Some (Fin 1)) =
     \<lparr>precision = 0, stepSize = Fin 1, unit = ''L'', factor = Fin 1000\<rparr> \<and>
   getVolumeFormat (Some (Fin 2)) =
     \<lparr>precision = 0, stepSize = Fin 1, unit = ''gal'',
      factor = round64 (219969157 / 1000000)\<rparr> \<and>
   getVolumeFormat (Some (Fin 3)) =
     \<lparr>precision = 0, stepSize = Fin 1, unit = ''gal'',
      factor = round64 (264172052 / 1000000)\<rparr> \<and>
   (\<not> strict_eq u (Fin 1) \<and> \<not> strict_eq u (Fin 2) \<and> \<not> strict_eq u (Fin 3) \<longrightarrow>
      getVolumeFormat u =
        \<lparr>precision = 3, stepSize = round64 (5 / 1000), unit = ''m<sup>3</sup>'',
         factor = Fin 1\<rparr>) \<and>
   volumeConvertToSI u v = js_div v (factor (getVolumeFormat u)) \<and>
   volumeConvertFromSI u v = js_mul v (factor (getVolumeFormat u))"
  by (simp add: getVolumeFormat_def volumeConvertToSI_def volumeConvertFromSI_def js_eq_def)

theorem getVolumeFormat_table_witness:
  "getVolumeFormat (Some (Fin 0)) =
     \<lparr>precision = 3, stepSize = round64 (5 / 1000), unit = ''m<sup>3</sup>'',
      factor = Fin 1\<rparr> \<and>
   getVolumeFormat None =
     \<lparr>precision = 3, stepSize = round64 (5 / 1000), unit = ''m<sup>3</sup>'',
      factor = Fin 1\<rparr> \<and>
   volumeConvertToSI (Some (Fin 1)) (Fin 2000) = js_div (Fin 2000) (Fin 1000)"
  using getVolumeFormat_table [of "Some (Fin 0)" "Fin 0"]
        getVolumeFormat_table [of None "Fin 0"]
        getVolumeFormat_table [of "Some (Fin 1)" "Fin 2000"]
  by (simp add: js_eq_def)

section \<open>Round trips of the volume conversions\<close>

lemma factor_val:
  "factor (getVolumeFormat u) = Fin (val (factor (getVolumeFormat u))) \<and>
   1 \<le> val (factor (getVolumeFormat u)) \<and> val (factor (getVolumeFormat u)) \<le> 1000"
  unfolding getVolumeFormat_def factor_imperial factor_us by simp

lemma factor_range: "\<exists>f. factor (getVolumeFormat u) = Fin f \<and> 1 \<le> f \<and> f \<le> 1000"
  using factor_val [of u] by blast

lemma js_mul_Fin: "a \<noteq> 0 \<Longrightarrow> b \<noteq> 0 \<Longrightarrow> js_mul (Fin a) (Fin b) = round64 (a * b)"
  by (simp add: js_mul_def)

lemma js_div_Fin: "a \<noteq> 0 \<Longrightarrow> b \<noteq> 0 \<Longrightarrow> js_div (Fin a) (Fin b) = round64 (a / b)"
  by (simp add: js_div_def)

lemma second_rounding:
  assumes lo: "2 powi (- 1000) \<le> \<bar>v\<bar>" and hi: "\<bar>v\<bar> \<le> 2 powi 1000"
    and x: "\<bar>x - v\<bar> \<le> \<bar>v\<bar> * 2 powi (- 53)"
  shows "\<exists>r. round64 x = Fin r \<and> \<bar>r - v\<bar> \<le> \<bar>v\<bar> * (2 powi (- 52) + 2 powi (- 106))"
proof -
  define u :: rat where "u = 2 powi (- 53)"
  define d where "d = \<bar>v\<bar> * u"
  have u: "0 < u" "u \<le> 1 / 2" by (simp_all add: u_def power_int_minus)
  have d: "0 \<le> d" "d \<le> \<bar>v\<bar> / 2"
    using u mult_left_mono [of u "1 / 2" "\<bar>v\<bar>"] by (simp_all add: d_def)
  from x have xd: "\<bar>x - v\<bar> \<le> d" by (simp add: d_def u_def)
  have x_lo: "\<bar>v\<bar> / 2 \<le> \<bar>x\<bar>" and x_hi: "\<bar>x\<bar> \<le> \<bar>v\<bar> + d"
    using xd d by linarith+
  have "(2::rat) powi (- 1022) \<le> 2 powi (- 1001)" by (intro pow2_mono) simp
  also have "\<dots> = 2 powi (- 1000) / 2" by (simp add: power_int_diff flip: pow2_diff [of "- 1000" 1, simplified])
  also have "\<dots> \<le> \<bar>v\<bar> / 2" using lo by simp
  finally have r_lo: "2 powi (- 1022) \<le> \<bar>x\<bar>" using x_lo by simp
  have "\<bar>x\<bar> \<le> 2 * \<bar>v\<bar>" using x_hi d by linarith
  also have "\<dots> \<le> 2 * 2 powi 1000" using hi by simp
  also have "\<dots> = 2 powi 1001" by (simp add: power_int_add [of 2 1000 1, simplified] )
  also have "\<dots> < 2 powi 1023" by (intro pow2_strict_mono) simp
  finally have r_hi: "\<bar>x\<bar> < 2 powi 1023" .
  from round64_rel_err [OF r_lo r_hi] obtain r
    where r: "round64 x = Fin r" and e: "\<bar>r - x\<bar> \<le> \<bar>x\<bar> * u"
    by (auto simp: u_def)
  have "\<bar>x\<bar> * u \<le> (\<bar>v\<bar> + d) * u" using x_hi u by (simp add: mult_right_mono)
  also have "\<dots> = d + d * u" by (simp add: d_def algebra_simps)
  finally have "\<bar>r - x\<bar> \<le> d + d * u" using e by simp
  with xd have "\<bar>r - v\<bar> \<le> 2 * d + d * u" by linarith
  also have "2 * d + d * u = \<bar>v\<bar> * (2 * u + u * u)" by (simp add: d_def algebra_simps)
  also have "2 * u + u * u = 2 powi (- 52) + 2 powi (- 106)"
    by (simp add: u_def power_int_minus)
  finally show ?thesis using r by blast
qed


lemma roundtrip_mul_div:
  assumes f: "1 \<le> f" "f \<le> 1000"
    and lo: "2 powi (- 1000) \<le> \<bar>v\<bar>" and hi: "\<bar>v\<bar> \<le> 2 powi 1000"
  shows "\<exists>r. js_div (js_mul (Fin v) (Fin f)) (Fin f) = Fin r \<and>
             \<bar>r - v\<bar> \<le> \<bar>v\<bar> * (2 powi (- 52) + 2 powi (- 106))"
proof -
  have fpos: "0 < f" using f by simp
  have av: "0 < \<bar>v\<bar>" using lo pow2_pos [of "- 1000"] by linarith
  then have v0: "v \<noteq> 0" by simp
  have x_lo: "\<bar>v\<bar> \<le> \<bar>v * f\<bar>"
    using f mult_left_mono [of 1 f "\<bar>v\<bar>"] by (simp add: abs_mult)
  have "(2::rat) powi (- 1022) \<le> 2 powi (- 1000)" by (intro pow2_mono) simp
  with lo x_lo have r_lo: "2 powi (- 1022) \<le> \<bar>v * f\<bar>" by linarith
  have "\<bar>v * f\<bar> \<le> \<bar>v\<bar> * 1000"
    using f mult_left_mono [of f 1000 "\<bar>v\<bar>"] by (simp add: abs_mult)
  also have "\<dots> \<le> 2 powi 1000 * 1000" using hi by simp
  also have "\<dots> < 2 powi 1000 * 2 powi 10" by simp
  also have "\<dots> = 2 powi 1010" by (simp flip: pow2_add)
  also have "\<dots> < 2 powi 1023" by (intro pow2_strict_mono) simp
  finally have r_hi: "\<bar>v * f\<bar> < 2 powi 1023" .
  from round64_rel_err [OF r_lo r_hi] obtain y
    where y: "round64 (v * f) = Fin y" and e: "\<bar>y - v * f\<bar> \<le> \<bar>v * f\<bar> * 2 powi (- 53)"
    by blast
  have "\<bar>v * f\<bar> * 2 powi (- 53) < \<bar>v * f\<bar> * 1"
    using av fpos by (intro mult_strict_left_mono) (simp_all add: power_int_minus)
  with e have y0: "y \<noteq> 0" by auto
  have "y / f - v = (y - v * f) / f" using fpos by (simp add: diff_divide_distrib)
  then have "\<bar>y / f - v\<bar> = \<bar>y - v * f\<bar> / f" using fpos by (simp add: abs_divide del: )
  also have "\<dots> \<le> \<bar>v * f\<bar> * 2 powi (- 53) / f"
    using e by (rule divide_right_mono) (use fpos in simp)
  also have "\<dots> = \<bar>v\<bar> * 2 powi (- 53)" using fpos by (simp add: abs_mult)
  finally have "\<bar>y / f - v\<bar> \<le> \<bar>v\<bar> * 2 powi (- 53)" .
  from second_rounding [OF lo hi this] obtain r
    where "round64 (y / f) = Fin r" "\<bar>r - v\<bar> \<le> \<bar>v\<bar> * (2 powi (- 52) + 2 powi (- 106))"
    by blast
  then show ?thesis
    using v0 y0 fpos y by (simp add: js_mul_Fin js_div_Fin)
qed

lemma roundtrip_div_mul:
  assumes f: "1 \<le> f" "f \<le> 1000"
    and lo: "2 powi (- 1000) \<le> \<bar>v\<bar>" and hi: "\<bar>v\<bar> \<le> 2 powi 1000"
  shows "\<exists>r. js_mul (js_div (Fin v) (Fin f)) (Fin f) = Fin r \<and>
             \<bar>r - v\<bar> \<le> \<bar>v\<bar> * (2 powi (- 52) + 2 powi (- 106))"
proof -
  have fpos: "0 < f" using f by simp
  have av: "0 < \<bar>v\<bar>" using lo pow2_pos [of "- 1000"] by linarith
  then have v0: "v \<noteq> 0" by simp
  have a: "\<bar>v / f\<bar> = \<bar>v\<bar> / f" using fpos by (simp only: abs_divide abs_of_pos)
  have "(2::rat) powi (- 1022) \<le> 2 powi (- 1010)" by (intro pow2_mono) simp
  also have "\<dots> = 2 powi (- 1000) / 2 powi 10" by (simp flip: pow2_diff)
  also have "\<dots> \<le> 2 powi (- 1000) / 1000"
    by (intro divide_left_mono) simp_all
  also have "\<dots> \<le> \<bar>v\<bar> / 1000" using lo by (rule divide_right_mono) simp
  also have "\<dots> \<le> \<bar>v\<bar> / f" using f fpos by (intro divide_left_mono) simp_all
  finally have r_lo: "2 powi (- 1022) \<le> \<bar>v / f\<bar>" unfolding a .
  have "\<bar>v\<bar> / f \<le> \<bar>v\<bar> / 1" using f by (intro divide_left_mono) simp_all
  also have "\<dots> \<le> 2 powi 1000" using hi by simp
  also have "\<dots> < 2 powi 1023" by (intro pow2_strict_mono) simp
  finally have r_hi: "\<bar>v / f\<bar> < 2 powi 1023" unfolding a .
  from round64_rel_err [OF r_lo r_hi] obtain y
    where y: "round64 (v / f) = Fin y" and e: "\<bar>y - v / f\<bar> \<le> \<bar>v / f\<bar> * 2 powi (- 53)"
    by blast
  have "0 < \<bar>v / f\<bar>" using av fpos a by simp
  then have "\<bar>v / f\<bar> * 2 powi (- 53) < \<bar>v / f\<bar> * 1"
    by (intro mult_strict_left_mono) (simp_all add: power_int_minus)
  with e have y0: "y \<noteq> 0" by auto
  have "y * f - v = (y - v / f) * f" using fpos by (simp add: left_diff_distrib)
  then have "\<bar>y * f - v\<bar> = \<bar>y - v / f\<bar> * f" using fpos by (simp only: abs_mult abs_of_pos)
  also have "\<dots> \<le> \<bar>v / f\<bar> * 2 powi (- 53) * f"
    using e fpos by (intro mult_right_mono) simp_all
  also have "\<dots> = \<bar>v\<bar> * 2 powi (- 53)" using fpos by (simp add: a)
  finally have "\<bar>y * f - v\<bar> \<le> \<bar>v\<bar> * 2 powi (- 53)" .
  from second_rounding [OF lo hi this] obtain r
    where "round64 (y * f) = Fin r" "\<bar>r - v\<bar> \<le> \<bar>v\<bar> * (2 powi (- 52) + 2 powi (- 106))"
    by blast
  then show ?thesis
    using v0 y0 fpos y by (simp add: js_mul_Fin js_div_Fin)
qed

lemma toSI_7:
  "round64 (7 / (483717291747169 / 2199023255552)) =
     Fin (2293063105503903 / 72057594037927936)"
  using round64_eq [of "7 / (483717291747169 / 2199023255552)" "- 5" 4586126211007806]
  by (simp add: power_int_minus)

lemma fromSI_toSI_7:
  "round64 (2293063105503903 / 72057594037927936 * (483717291747169 / 2199023255552)) =
     Fin (7881299347898369 / 1125899906842624)"
  using round64_eq [of "2293063105503903 / 72057594037927936 * (483717291747169 / 2199023255552)"
      2 7881299347898369]
  by (simp add: power_int_minus)

lemma round64_7: "round64 7 = Fin 7"
  using round64_eq [of 7 2 7881299347898368] by (simp add: power_int_minus)

text \<open>
  C1, as stated, fails: 7 imperial gallons converted to cubic metres and back is not 7.
  The quotient \<open>7 / 219.969157\<close> is rounded to 53 bits, and the product of the rounded
  quotient and the factor, rounded again, is \<open>7 + 2 ^ (- 50)\<close>.
\<close>

theorem volumeConvert_roundtrip_counterexample:
  "\<not> js_eq (volumeConvertFromSI (Some (Fin 2)) (volumeConvertToSI (Some (Fin 2)) (Fin 7))) (Fin 7)"
proof -
  have f: "factor (getVolumeFormat (Some (Fin 2))) = Fin (483717291747169 / 2199023255552)"
    unfolding getVolumeFormat_def factor_imperial by (simp add: js_eq_def)
  have "volumeConvertToSI (Some (Fin 2)) (Fin 7) = Fin (2293063105503903 / 72057594037927936)"
    unfolding volumeConvertToSI_def f using toSI_7 by (simp add: js_div_def)
  then have "volumeConvertFromSI (Some (Fin 2)) (volumeConvertToSI (Some (Fin 2)) (Fin 7)) =
      Fin (7881299347898369 / 1125899906842624)"
    unfolding volumeConvertFromSI_def f using fromSI_toSI_7 by (simp add: js_mul_def)
  then show ?thesis by (simp add: js_eq_def)
qed

text \<open>
  C1, amended. For every unit selector and every volume \<open>v\<close> of magnitude between
  \<open>2 ^ (- 1000)\<close> and \<open>2 ^ 1000\<close>, each of the two round trips returns a finite number
  \<open>r\<close> with \<open>\<bar>r - v\<bar> \<le> \<bar>v\<bar> * (2 ^ (- 52) + 2 ^ (- 106))\<close>: the pair is inverse up to
  the two roundings. For a selector other than 1, 2 and 3 (cubic metre, factor 1) both
  round trips return every finite binary64 value \<open>v\<close> itself.
\<close>

theorem volumeConvert_roundtrip_error:
  "(2 powi (- 1000) \<le> \<bar>v\<bar> \<and> \<bar>v\<bar> \<le> 2 powi 1000 \<longrightarrow>
      (\<exists>r. volumeConvertToSI u (volumeConvertFromSI u (Fin v)) = Fin r \<and>
           \<bar>r - v\<bar> \<le> \<bar>v\<bar> * (2 powi (- 52) + 2 powi (- 106))) \<and>
      (\<exists>r. volumeConvertFromSI u (volumeConvertToSI u (Fin v)) = Fin r \<and>
           \<bar>r - v\<bar> \<le> \<bar>v\<bar> * (2 powi (- 52) + 2 powi (- 106)))) \<and>
   (\<not> strict_eq u (Fin 1) \<and> \<not> strict_eq u (Fin 2) \<and> \<not> strict_eq u (Fin 3) \<and>
    round64 v = Fin v \<longrightarrow>
      volumeConvertToSI u (volumeConvertFromSI u (Fin v)) = Fin v \<and>
      volumeConvertFromSI u (volumeConvertToSI u (Fin v)) = Fin v)"
proof (intro conjI impI)
  assume v: "2 powi (- 1000) \<le> \<bar>v\<bar> \<and> \<bar>v\<bar> \<le> 2 powi 1000"
  from factor_range [of u] obtain f
    where f: "factor (getVolumeFormat u) = Fin f" "1 \<le> f" "f \<le> 1000"
    by blast
  show "\<exists>r. volumeConvertToSI u (volumeConvertFromSI u (Fin v)) = Fin r \<and>
           \<bar>r - v\<bar> \<le> \<bar>v\<bar> * (2 powi (- 52) + 2 powi (- 106))"
    unfolding volumeConvertToSI_def volumeConvertFromSI_def f(1)
    using f(2,3) v by (intro roundtrip_mul_div) simp_all
  show "\<exists>r. volumeConvertFromSI u (volumeConvertToSI u (Fin v)) = Fin r \<and>
           \<bar>r - v\<bar> \<le> \<bar>v\<bar> * (2 powi (- 52) + 2 powi (- 106))"
    unfolding volumeConvertToSI_def volumeConvertFromSI_def f(1)
    using f(2,3) v by (intro roundtrip_div_mul) simp_all
next
  assume a: "\<not> strict_eq u (Fin 1) \<and> \<not> strict_eq u (Fin 2) \<and> \<not> strict_eq u (Fin 3) \<and>
    round64 v = Fin v"
  then have f: "factor (getVolumeFormat u) = Fin 1"
    by (simp add: getVolumeFormat_def)
  from a have r: "round64 v = Fin v" by simp
  have m: "js_mul (Fin v) (Fin 1) = Fin v"
    by (cases "v = 0") (simp_all add: js_mul_def zero_of_def r)
  have d: "js_div (Fin v) (Fin 1) = Fin v"
    by (cases "v = 0") (simp_all add: js_div_def zero_of_def r)
  show "volumeConvertToSI u (volumeConvertFromSI u (Fin v)) = Fin v"
    by (simp only: volumeConvertToSI_def volumeConvertFromSI_def f m d)
  show "volumeConvertFromSI u (volumeConvertToSI u (Fin v)) = Fin v"
    by (simp only: volumeConvertToSI_def volumeConvertFromSI_def f m d)
qed

theorem volumeConvert_roundtrip_error_witness:
  "(\<exists>r. volumeConvertFromSI (Some (Fin 2)) (volumeConvertToSI (Some (Fin 2)) (Fin 7)) = Fin r \<and>
        \<bar>r - 7\<bar> \<le> 7 * (2 powi (- 52) + 2 powi (- 106))) \<and>
   volumeConvertFromSI None (volumeConvertToSI None (Fin 7)) = Fin 7"
proof -
  have "(2::rat) powi (- 1000) \<le> \<bar>7\<bar> \<and> \<bar>7::rat\<bar> \<le> 2 powi 1000"
    by (simp add: power_int_minus)
  then show ?thesis
    using volumeConvert_roundtrip_error [of 7 "Some (Fin 2)"]
          volumeConvert_roundtrip_error [of 7 None] round64_7
    by auto
qed

section \<open>Decimal digits\<close>

lemma is_digit_digit_char: "d < 10 \<Longrightarrow> is_digit (digit_char d)"
  by (simp add: is_digit_def digit_char_def)

lemma digit_val_digit_char: "d < 10 \<Longrightarrow> digit_val (digit_char d) = d"
  by (simp add: digit_val_def digit_char_def)

lemma digits_nonempty: "digits n \<noteq> []"
  by (subst digits.simps) simp

lemma digits_all: "list_all is_digit (digits n)"
proof (induction n rule: digits.induct)
  case (1 n)
  show ?case
  proof (cases "n < 10")
    case True
    then show ?thesis by (subst digits.simps) (simp add: is_digit_digit_char)
  next
    case False
    with 1 show ?thesis by (subst digits.simps) (simp add: is_digit_digit_char)
  qed
qed

lemma digits_val_snoc: "digits_val (s @ [c]) = 10 * digits_val s + digit_val c"
  by (simp add: digits_val_def)

lemma digits_val_digits: "digits_val (digits n) = n"
proof (induction n rule: digits.induct)
  case (1 n)
  show ?case
  proof (cases "n < 10")
    case True
    then show ?thesis
      by (subst digits.simps) (simp add: digits_val_def digit_val_digit_char)
  next
    case False
    with 1 have "digits_val (digits (n div 10)) = n div 10" by simp
    with False show ?thesis
      by (subst digits.simps) (simp add: digits_val_snoc digit_val_digit_char)
  qed
qed







section \<open>Formatting a volume\<close>









section \<open>The name of a fluid type\<close>

text \<open>
  C6. For every integer code outside of 0 to 5, \<^verbatim>\<open>fluidTypeText\<close> gives the text
  \<open>Unknown\<close>, as it does for a fluid type that is \<^verbatim>\<open>undefined\<close>. It is total: for every
  value it gives the description of one of the six options or \<open>Unknown\<close>, and raises
  nothing.
\<close>

theorem fluidTypeText_unknown:
  "(n < 0 \<or> 5 < n \<longrightarrow> fluidTypeText qsTr (Some (Fin (of_int n))) = qsTr ''Unknown'') \<and>
   fluidTypeText qsTr None = qsTr ''Unknown'' \<and>
   fluidTypeText qsTr v \<in> set (map description (fluidTypes qsTr)) \<union> {qsTr ''Unknown''}"
proof (intro conjI impI)
  assume "n < 0 \<or> 5 < n"
  then show "fluidTypeText qsTr (Some (Fin (of_int n))) = qsTr ''Unknown''"
    by (auto simp: fluidTypeText_def fluidTypes_def js_eq_def)
next
  show "fluidTypeText qsTr None = qsTr ''Unknown''"
    by (simp add: fluidTypeText_def fluidTypes_def)
next
  have "fluidTypeText_loop qsTr os v \<in> set (map description os) \<union> {qsTr ''Unknown''}" for os
    by (induction os) auto
  then show "fluidTypeText qsTr v \<in> set (map description (fluidTypes qsTr)) \<union> {qsTr ''Unknown''}"
    by (simp only: fluidTypeText_def)
qed

theorem fluidTypeText_unknown_witness:
  "fluidTypeText id (Some (Fin 6)) = ''Unknown'' \<and>
   fluidTypeText id (Some (Fin (- 1))) = ''Unknown''"
  using fluidTypeText_unknown [of 6 id] fluidTypeText_unknown [of "- 1" id] by simp

section \<open>The title of a tank\<close>

text \<open>
  The two titles in general. A custom name that is not set or is the empty string gives
  the default title: on the tile the entry that the table of fluid types has at the
  fluid type, on the page the text of the fluid type followed by the word \<open>tank\<close> and the
  input number; without a fluid type \<open>TANK ?\<close> on the tile and the description of the
  service on the page. For each of the six codes the table of the tile has a name. Every
  name that is not empty is the title as it is.
\<close>

lemma title_default:
  "(nameItem t = None \<or> nameItem t = Some '''' \<longrightarrow>
      titleField_text qsTr t =
        (case fluidTypeItem t of
           None \<Rightarrow> Some ''TANK ?''
         | Some k \<Rightarrow> js_index (tile_fluidTypes qsTr) (Some k))) \<and>
   (i < 6 \<longrightarrow>
      js_index (tile_fluidTypes qsTr) (Some (Fin (of_nat i))) = Some (tile_fluidTypes qsTr ! i)) \<and>
   (name \<noteq> '''' \<longrightarrow> titleField_text qsTr (t\<lparr>nameItem := Some name\<rparr>) = Some name) \<and>
   (customName pg = None \<or> customName pg = Some '''' \<longrightarrow>
      getTitle qsTr pg =
        (let inputNumber = (case connection pg of Some c \<Rightarrow> filter is_digit c | None \<Rightarrow> '''');
             inputNumberStr = (if inputNumber = '''' then '''' else '' ('' @ inputNumber @ '')'')
         in case fluidType pg of
              None \<Rightarrow> service_description pg @ inputNumberStr
            | Some k \<Rightarrow> fluidTypeText qsTr (Some k) @ qsTr '' tank'' @ inputNumberStr)) \<and>
   (name \<noteq> '''' \<longrightarrow> getTitle qsTr (pg\<lparr>customName := Some name\<rparr>) = name)"
  by (auto simp: titleField_text_def getTitle_def valid_def Let_def js_index_def tile_fluidTypes_def
      split: option.splits)

lemma title_default_examples:
  "titleField_text id example_tile = Some ''FRESH WATER'' \<and>
   titleField_text id (example_tile\<lparr>fluidTypeItem := None\<rparr>) = Some ''TANK ?'' \<and>
   titleField_text id (example_tile\<lparr>nameItem := Some ''Bow''\<rparr>) = Some ''Bow'' \<and>
   getTitle id example_page = ''Fresh water tank (3)'' \<and>
   getTitle id (example_page\<lparr>fluidType := None\<rparr>) = ''Generic tank (3)'' \<and>
   getTitle id (example_page\<lparr>customName := Some ''Bow''\<rparr>) = ''Bow''"
  using title_default [of example_tile id 1 "''Bow''" example_page]
    title_default [of "example_tile\<lparr>fluidTypeItem := None\<rparr>" id 1 "''Bow''"
      "example_page\<lparr>fluidType := None\<rparr>"]
  by (simp add: example_tile_def example_page_def tile_fluidTypes_def fluidTypeText_def
      fluidTypes_def js_eq_def is_digit_def)

text \<open>
  C7. A custom name that is empty clears the title to the default display: the name of
  the fluid type when the fluid type is valid, otherwise a placeholder. The tile misses
  this for a fluid type that is valid but is none of the six codes: with the fluid type
  6 and an empty custom name its title is \<^verbatim>\<open>undefined\<close>, the entry of the table at index
  6, which is neither a name nor the placeholder \<open>TANK ?\<close>. The tank page gives the title
  \<open>Unknown tank (3)\<close> for the same fluid type.
\<close>

theorem tile_title_unknown_fluid:
  "titleField_text id (example_tile\<lparr>fluidTypeItem := Some (Fin 6)\<rparr>) = None \<and>
   getTitle id (example_page\<lparr>fluidType := Some (Fin 6)\<rparr>) = ''Unknown tank (3)''"
  by (simp add: titleField_text_def getTitle_def valid_def example_tile_def example_page_def
      js_index_def tile_fluidTypes_def fluidTypeText_def fluidTypes_def js_eq_def is_digit_def
      Let_def)

section \<open>A tank that does not answer\<close>

lemma opacity_value: "round64 (2 / 10) = Fin (3602879701896397 / 18014398509481984)"
  using round64_eq [of "2 / 10" "- 3" 7205759403792794] by (simp add: power_int_minus)

text \<open>
  C5. When the \<^verbatim>\<open>/Connected\<close> value of a tank service is 0, the status text of the tile
  reads \<open>NO RESPONSE\<close> and is red, and the level bar is still drawn from the \<^verbatim>\<open>/Level\<close>
  value: its width is the same function of the level as for a connected tank, only its
  opacity goes down to the number written \<open>0.2\<close>.
\<close>

theorem tile_no_response:
  "connectedItem t = Some (Fin 0) \<longrightarrow>
     status_text eng t = ''NO RESPONSE'' \<and> status_color t = ''red'' \<and>
     valueBar_opacity t = Fin (3602879701896397 / 18014398509481984) \<and>
     valueBar_width t = valueBar_width (t\<lparr>connectedItem := Some (Fin 1)\<rparr>) \<and>
     valueBar_width t =
       (if js_le (Fin 0) (num_of (levelItem t))
        then js_sub (js_mul (js_div (num_of (levelItem t)) (Fin 100)) (js_sub (rootWidth t) (Fin 10)))
               (Fin 2)
        else Fin 0)"
  unfolding valueBar_opacity_def opacity_value
  by (simp add: status_text_def status_color_def valueBar_width_def js_ge_def)

theorem tile_no_response_witness:
  "status_text plain_engine example_tile = ''NO RESPONSE'' \<and>
   status_color example_tile = ''red'' \<and>
   valueBar_opacity example_tile = Fin (3602879701896397 / 18014398509481984) \<and>
   valueBar_width example_tile = valueBar_width (example_tile\<lparr>connectedItem := Some (Fin 1)\<rparr>)"
  using tile_no_response [of example_tile plain_engine]
  by (simp add: example_tile_def)

section \<open>Shape strings\<close>

lemma is_digit_not_sep:
  "is_digit c \<Longrightarrow> c \<noteq> CHR '':'' \<and> c \<noteq> CHR '','' \<and> c \<noteq> CHR ''-'' \<and> c \<noteq> CHR ''+''"
  by (auto simp: is_digit_def)

lemma hd_digits: "is_digit (hd (digits n))"
  using digits_all [of n] digits_nonempty [of n] by (cases "digits n") simp_all

lemma unsigned_num_digits: "n \<le> 2 ^ 53 \<Longrightarrow> unsigned_num (digits n) = Some n"
  by (simp add: unsigned_num_def digits_nonempty digits_all digits_val_digits)

lemma ToNumber_digits:
  assumes "n \<le> 2 ^ 53"
  shows "ToNumber eng (digits n) = Fin (of_nat n)"
  using hd_digits [of n, THEN is_digit_not_sep] assms
  by (simp add: ToNumber_def digits_nonempty unsigned_num_digits)

lemma ToNumber_minus_digits:
  assumes "n \<le> 2 ^ 53" "0 < n"
  shows "ToNumber eng (CHR ''-'' # digits n) = Fin (- of_nat n)"
  using assms by (simp add: ToNumber_def unsigned_num_digits)

lemma safe_integerE:
  assumes "safe_integer x"
  obtains k :: int where "x = Fin (of_int k)" "\<bar>k\<bar> \<le> 2 ^ 53"
proof -
  from assms obtain q where q: "x = Fin q" "of_int \<lfloor>q\<rfloor> = q" "\<bar>q\<bar> \<le> 2 ^ 53"
    by (auto simp: safe_integer_def split: jsnum.splits)
  from q(3) have "\<bar>q\<bar> \<le> of_int (2 ^ 53)" by simp
  then have "\<bar>(of_int \<lfloor>q\<rfloor> :: rat)\<bar> \<le> of_int (2 ^ 53)" by (simp only: q(2))
  then have "(of_int \<bar>\<lfloor>q\<rfloor>\<bar> :: rat) \<le> of_int (2 ^ 53)" by simp
  then have "\<bar>\<lfloor>q\<rfloor>\<bar> \<le> 2 ^ 53" by (simp only: of_int_le_iff)
  moreover have "x = Fin (of_int \<lfloor>q\<rfloor>)" by (simp only: q(1) q(2))
  ultimately show thesis using that by blast
qed

lemma ToString_int:
  assumes "\<bar>k\<bar> \<le> 2 ^ 53"
  shows "ToString eng (Fin (of_int k)) = (if k < 0 then ''-'' else '''') @ digits (nat \<bar>k\<bar>)"
proof -
  from assms have "(of_int \<bar>k\<bar> :: rat) \<le> of_int (2 ^ 53)" by (simp only: of_int_le_iff)
  then have "\<bar>(of_int k :: rat)\<bar> \<le> 2 ^ 53" by simp
  then show ?thesis by (simp add: ToString_def)
qed

lemma ToNumber_ToString:
  assumes "safe_integer x"
  shows "ToNumber eng (ToString eng x) = x"
proof -
  from assms obtain k :: int where k: "x = Fin (of_int k)" "\<bar>k\<bar> \<le> 2 ^ 53"
    by (rule safe_integerE)
  have n: "nat \<bar>k\<bar> \<le> 2 ^ 53" using k(2) by (simp add: nat_le_iff)
  note ts = ToString_int [OF k(2), of eng]
  show ?thesis
  proof (cases "k < 0")
    case True
    then have "0 < nat \<bar>k\<bar>" by simp
    from ToNumber_minus_digits [OF n this, of eng] True show ?thesis
      unfolding k(1) ts by simp
  next
    case False
    with ToNumber_digits [OF n, of eng] show ?thesis
      unfolding k(1) ts by simp
  qed
qed

lemma ToString_no_sep:
  assumes "safe_integer x"
  shows "CHR '':'' \<notin> set (ToString eng x)" "CHR '','' \<notin> set (ToString eng x)"
    "ToString eng x \<noteq> []"
proof -
  from assms obtain k :: int where k: "x = Fin (of_int k)" "\<bar>k\<bar> \<le> 2 ^ 53"
    by (rule safe_integerE)
  note ts = ToString_int [OF k(2), of eng]
  have d: "\<forall>c \<in> set (digits (nat \<bar>k\<bar>)). is_digit c"
    using digits_all [of "nat \<bar>k\<bar>"] by (simp add: list_all_iff)
  show "CHR '':'' \<notin> set (ToString eng x)" "CHR '','' \<notin> set (ToString eng x)"
    unfolding k(1) ts using d is_digit_not_sep by auto
  show "ToString eng x \<noteq> []"
    unfolding k(1) ts by (simp add: digits_nonempty)
qed

lemma converts_back_safe: "safe_integer n \<Longrightarrow> converts_back eng n"
  by (simp add: converts_back_def ToNumber_ToString ToString_no_sep)

lemma split_nonempty: "split c s \<noteq> []"
  by (induction s) (auto split: list.splits)

lemma split_no_sep: "c \<notin> set x \<Longrightarrow> split c x = [x]"
  by (induction x) auto

lemma split_append_sep: "c \<notin> set x \<Longrightarrow> split c (x @ c # rest) = x # split c rest"
  by (induction x) auto

lemma split_join:
  assumes "xs \<noteq> []" "\<forall>x \<in> set xs. c \<notin> set x"
  shows "split c (join [c] xs) = xs"
  using assms
proof (induction "[c]" xs rule: join.induct)
  case 1
  then show ?case by simp
next
  case (2 x)
  then show ?case by (simp add: split_no_sep)
next
  case (3 x y ys)
  then show ?case by (simp add: split_append_sep)
qed

lemma join_nonempty:
  assumes "xs \<noteq> []" "\<forall>x \<in> set xs. x \<noteq> []"
  shows "join sep xs \<noteq> []"
  using assms by (induction sep xs rule: join.induct) auto

lemma point_roundtrip:
  assumes "length p = 2" "\<forall>n \<in> set p. converts_back eng n"
  shows "map (ToNumber eng) (split (CHR '':'') (join '':'' (map (ToString eng) p))) = p"
proof -
  have "split (CHR '':'') (join '':'' (map (ToString eng) p)) = map (ToString eng) p"
    using assms by (intro split_join) (auto simp: converts_back_def)
  then show ?thesis
    using assms(2) by (simp add: converts_back_def map_idI)
qed

lemma point_string:
  assumes "length p = 2" "\<forall>n \<in> set p. converts_back eng n"
  shows "CHR '','' \<notin> set (join '':'' (map (ToString eng) p))"
    and "join '':'' (map (ToString eng) p) \<noteq> []"
proof -
  from assms(1) obtain a b where p: "p = [a, b]"
    by (cases p; cases "tl p") auto
  with assms(2) have "converts_back eng a" "converts_back eng b" by simp_all
  then show "CHR '','' \<notin> set (join '':'' (map (ToString eng) p))"
    and "join '':'' (map (ToString eng) p) \<noteq> []"
    by (simp_all add: p converts_back_def)
qed

lemma points_roundtrip:
  assumes "pairs_of (converts_back eng) a"
  shows "stringToPointArray eng (Some (pointArrayToString eng a)) = a"
proof (cases "a = []")
  case True
  then show ?thesis by (simp add: stringToPointArray_def pointArrayToString_def)
next
  case False
  let ?strs = "map (\<lambda>x. join '':'' (map (ToString eng) x)) a"
  have ne: "?strs \<noteq> []" using False by simp
  have nosep: "\<forall>s \<in> set ?strs. CHR '','' \<notin> set s" and nonempty: "\<forall>s \<in> set ?strs. s \<noteq> []"
    using assms by (auto simp: pairs_of_def point_string)
  have sp: "split (CHR '','') (join '','' ?strs) = ?strs"
    using ne nosep by (rule split_join)
  have "join '','' ?strs \<noteq> []" using ne nonempty by (rule join_nonempty)
  then have "stringToPointArray eng (Some (pointArrayToString eng a)) =
      map (\<lambda>t. map (ToNumber eng) (split (CHR '':'') t)) ?strs"
    by (simp add: stringToPointArray_def pointArrayToString_def sp)
  also have "\<dots> = a"
    using assms by (simp add: pairs_of_def point_roundtrip map_idI o_def)
  finally show ?thesis .
qed

lemma pairs_of_mono: "pairs_of P a \<Longrightarrow> (\<And>n. P n \<Longrightarrow> Q n) \<Longrightarrow> pairs_of Q a"
  by (auto simp: pairs_of_def)

text \<open>
  C9. \<^verbatim>\<open>stringToPointArray\<close> undoes \<^verbatim>\<open>pointArrayToString\<close> on every array of pairs of
  numbers that convert back from their strings, which the integers up to \<open>2 ^ 53\<close> in
  magnitude do with every engine; and \<^verbatim>\<open>stringToPointArray\<close> gives the empty array for
  \<^verbatim>\<open>undefined\<close> and for the empty string.
\<close>

theorem stringToPointArray_inverse:
  "(pairs_of (converts_back eng) a \<longrightarrow>
      stringToPointArray eng (Some (pointArrayToString eng a)) = a) \<and>
   (safe_integer n \<longrightarrow> converts_back eng n) \<and>
   stringToPointArray eng None = [] \<and> stringToPointArray eng (Some '''') = []"
proof (intro conjI impI)
  assume "pairs_of (converts_back eng) a"
  then show "stringToPointArray eng (Some (pointArrayToString eng a)) = a"
    by (rule points_roundtrip)
next
  assume "safe_integer n"
  then show "converts_back eng n" by (rule converts_back_safe)
next
  show "stringToPointArray eng None = []" by (simp add: stringToPointArray_def)
next
  show "stringToPointArray eng (Some '''') = []" by (simp add: stringToPointArray_def)
qed

theorem stringToPointArray_inverse_witness:
  "stringToPointArray plain_engine
     (Some (pointArrayToString plain_engine [[Fin 10, Fin 20], [Fin 30, Fin (- 40)]])) =
     [[Fin 10, Fin 20], [Fin 30, Fin (- 40)]] \<and>
   converts_back plain_engine (Fin 10)"
proof -
  have s: "safe_integer (Fin 10)" "safe_integer (Fin 20)" "safe_integer (Fin 30)"
    "safe_integer (Fin (- 40))"
    by (simp_all add: safe_integer_def)
  have c: "converts_back plain_engine (Fin 10)" "converts_back plain_engine (Fin 20)"
    "converts_back plain_engine (Fin 30)" "converts_back plain_engine (Fin (- 40))"
    using s stringToPointArray_inverse [of plain_engine "[]"] by blast+
  then have "pairs_of (converts_back plain_engine) [[Fin 10, Fin 20], [Fin 30, Fin (- 40)]]"
    by (simp add: pairs_of_def)
  then show ?thesis
    using c stringToPointArray_inverse [of plain_engine "[[Fin 10, Fin 20], [Fin 30, Fin (- 40)]]"]
    by blast
qed

section \<open>Adding a point to a shape\<close>

lemma js_lt_Fin [simp]: "js_lt (Fin a) (Fin b) \<longleftrightarrow> a < b"
  by (simp add: js_lt_def)

lemma js_le_Fin [simp]: "js_le (Fin a) (Fin b) \<longleftrightarrow> a \<le> b"
  by (auto simp: js_le_def js_lt_def js_eq_def)

lemma js_lt_not_le: "js_lt a b \<Longrightarrow> \<not> js_le b a"
  by (auto simp: js_le_def js_lt_def js_eq_def)

lemma js_lt_trans: "js_lt a b \<Longrightarrow> js_lt b c \<Longrightarrow> js_lt a c"
  by (auto simp: js_lt_def)

lemma percentE:
  assumes "percent x"
  obtains q where "x = Fin q" "of_int \<lfloor>q\<rfloor> = q" "1 \<le> q" "q \<le> 99"
  using assms by (auto simp: percent_def split: jsnum.splits)

lemma percent_nat: "percent (Fin (of_nat n)) \<longleftrightarrow> 1 \<le> n \<and> n \<le> 99"
proof -
  have "(of_int \<lfloor>(of_nat n :: rat)\<rfloor> :: rat) = of_nat n"
    by (metis floor_of_nat of_int_of_nat_eq)
  moreover have "(1 :: rat) \<le> of_nat n \<longleftrightarrow> 1 \<le> n"
    by (metis of_nat_1 of_nat_le_iff)
  moreover have "(of_nat n :: rat) \<le> 99 \<longleftrightarrow> n \<le> 99"
    by (metis of_nat_numeral of_nat_le_iff)
  ultimately show ?thesis by (simp add: percent_def)
qed

lemma percent_safe: "percent x \<Longrightarrow> safe_integer x"
  by (auto simp: safe_integer_def elim!: percentE)

lemma percent_range: "percent x \<Longrightarrow> \<not> js_lt x (Fin 1) \<and> \<not> js_lt (Fin 99) x"
  by (auto elim!: percentE)

lemma digit_val_le: "is_digit c \<Longrightarrow> digit_val c \<le> 9"
  unfolding is_digit_def digit_val_def by linarith

lemma editbox_digits_val:
  assumes "editbox s"
  shows "digits_val s \<le> 99"
proof -
  from assms have l: "length s \<le> 2" and d: "list_all is_digit s"
    by (simp_all add: editbox_def)
  consider "s = []" | a where "s = [a]" | a b where "s = [a, b]"
    using l by (cases s; cases "tl s"; cases "tl (tl s)") auto
  then show ?thesis
  proof cases
    case 1
    then show ?thesis by (simp add: digits_val_def)
  next
    case 2
    with d digit_val_le [of a] show ?thesis by (simp add: digits_val_def)
  next
    case 3
    with d digit_val_le [of a] digit_val_le [of b] show ?thesis by (simp add: digits_val_def)
  qed
qed

lemma editbox_ToNumber:
  assumes "editbox s"
  shows "ToNumber eng s = Fin (of_nat (digits_val s))"
proof (cases "s = []")
  case True
  then show ?thesis by (simp add: ToNumber_def digits_val_def)
next
  case False
  from assms have d: "list_all is_digit s" by (simp add: editbox_def)
  with False have "is_digit (hd s)" by (cases s) simp_all
  then have h: "hd s \<noteq> CHR ''-''" "hd s \<noteq> CHR ''+''"
    using is_digit_not_sep by blast+
  have "digits_val s \<le> 2 ^ 53"
    using editbox_digits_val [OF assms] by simp
  with False d have "unsigned_num s = Some (digits_val s)"
    by (simp add: unsigned_num_def)
  with False h show ?thesis by (simp add: ToNumber_def)
qed

lemma editbox_percent:
  assumes "editbox s" "\<not> js_lt (ToNumber eng s) (Fin 1)" "\<not> js_lt (Fin 99) (ToNumber eng s)"
  shows "percent (ToNumber eng s)"
proof -
  have "\<not> (of_nat (digits_val s) :: rat) < 1"
    using assms(2) by (simp add: editbox_ToNumber [OF assms(1)])
  then have "1 \<le> digits_val s"
    by (metis not_less of_nat_1 of_nat_le_iff)
  then show ?thesis
    using editbox_digits_val [OF assms(1)]
    by (simp add: editbox_ToNumber [OF assms(1)] percent_nat)
qed

lemma set_insert_point: "set (insert_point x ys) = insert x (set ys)"
  by (induction ys) auto

lemma length_insert_point: "length (insert_point x ys) = Suc (length ys)"
  by (induction ys) auto

lemma set_foldl_insert:
  "set (foldl (\<lambda>acc p. insert_point p acc) acc ps) = set acc \<union> set ps"
  by (induction ps arbitrary: acc) (auto simp: set_insert_point)

lemma length_foldl_insert:
  "length (foldl (\<lambda>acc p. insert_point p acc) acc ps) = length acc + length ps"
  by (induction ps arbitrary: acc) (auto simp: length_insert_point)

lemma set_sort_points: "set (sort_points ps) = set ps"
  by (simp add: sort_points_def set_foldl_insert)

lemma length_sort_points: "length (sort_points ps) = length ps"
  by (simp add: sort_points_def length_foldl_insert)

lemma pairs_of_elem:
  assumes "pairs_of P ps" "p \<in> set ps"
  shows "P (elem p 0)" "P (elem p 1)"
proof -
  from assms have l: "length p = 2" and a: "\<forall>n \<in> set p. P n"
    by (auto simp: pairs_of_def)
  from l obtain a b where "p = [a, b]"
    by (cases p; cases "tl p") auto
  with a show "P (elem p 0)" "P (elem p 1)" by (simp_all add: elem_def)
qed

lemma check_points_increasing:
  assumes "check_points qsTr ps = None" "pairs_of percent ps"
  shows "increasing 0 ps \<and> increasing 1 ps"
proof -
  have adj: "successively (\<lambda>a b. js_lt (elem a 0) (elem b 0) \<and> js_lt (elem a 1) (elem b 1)) ps"
    using assms
  proof (induction qsTr ps rule: check_points.induct)
    case (1 qsTr a b rest)
    have pa: "percent (elem a 0)" "percent (elem a 1)"
      and pb: "percent (elem b 0)" "percent (elem b 1)"
      using pairs_of_elem [OF "1.prems"(2), of a] pairs_of_elem [OF "1.prems"(2), of b]
      by simp_all
    from "1.prems"(1) have n: "\<not> js_le (elem b 0) (elem a 0)" "\<not> js_le (elem b 1) (elem a 1)"
      and c: "check_points qsTr (b # rest) = None"
      by (simp_all split: if_splits)
    from "1.prems"(2) have "pairs_of percent (b # rest)" by (simp add: pairs_of_def)
    with c "1.IH" n have "successively (\<lambda>a b. js_lt (elem a 0) (elem b 0) \<and> js_lt (elem a 1) (elem b 1)) (b # rest)"
      by simp
    moreover have "js_lt (elem a 0) (elem b 0)" "js_lt (elem a 1) (elem b 1)"
      using n pa pb by (auto elim!: percentE)
    ultimately show ?case by simp
  qed simp_all
  have "successively (\<lambda>a b. js_lt (elem a i) (elem b i)) ps" if "i = 0 \<or> i = 1" for i
    using adj that by (auto elim: successively_mono)
  moreover have "transp (\<lambda>a b. js_lt (elem a i) (elem b i))" for i
    by (auto simp: transp_def intro: js_lt_trans)
  ultimately show ?thesis
    by (simp add: increasing_def successively_conv_sorted_wrt)
qed

lemma increasing_check_points:
  assumes "increasing 0 ps" "increasing 1 ps"
  shows "check_points qsTr ps = None"
  using assms
  by (induction qsTr ps rule: check_points.induct) (auto simp: increasing_def js_lt_not_le)

lemma sorted_wrt_splice: "sorted_wrt P xs \<Longrightarrow> sorted_wrt P (take k xs @ drop (Suc k) xs)"
proof (induction xs arbitrary: k)
  case Nil
  then show ?case by simp
next
  case (Cons x xs)
  show ?case
  proof (cases k)
    case 0
    with Cons.prems show ?thesis by simp
  next
    case (Suc j)
    have "set (take j xs @ drop (Suc j) xs) \<subseteq> set xs"
      using set_take_subset [of j xs] set_drop_subset [of "Suc j" xs] by auto
    with Cons Suc show ?thesis by auto
  qed
qed

lemma shape_ok_splice1:
  assumes "shape_ok ps"
  shows "shape_ok (splice1 ps i)"
proof -
  define k where "k = nat (if i < 0 then max (int (length ps) + i) 0 else min i (int (length ps)))"
  have s: "splice1 ps i = take k ps @ drop (Suc k) ps"
    by (simp add: splice1_def k_def Let_def)
  have sub: "set (take k ps @ drop (Suc k) ps) \<subseteq> set ps"
    using set_take_subset [of k ps] set_drop_subset [of "Suc k" ps] by auto
  have "pairs_of percent (take k ps @ drop (Suc k) ps)"
    using assms sub unfolding shape_ok_def pairs_of_def by blast
  moreover have "increasing j (take k ps @ drop (Suc k) ps)" if "increasing j ps" for j
    using that unfolding increasing_def by (rule sorted_wrt_splice)
  moreover have "length (take k ps @ drop (Suc k) ps) \<le> length ps" by simp
  ultimately show ?thesis
    using assms unfolding s shape_ok_def by auto
qed

lemma shape_ok_roundtrip:
  assumes "shape_ok ps"
  shows "stringToPointArray eng (Some (pointArrayToString eng ps)) = ps"
proof -
  from assms have "pairs_of percent ps" by (simp add: shape_ok_def)
  then have "pairs_of (converts_back eng) ps"
    by (rule pairs_of_mono) (simp add: converts_back_safe percent_safe)
  then show ?thesis by (rule points_roundtrip)
qed

lemma shape_ok_Nil: "shape_ok []"
  by (simp add: shape_ok_def pairs_of_def increasing_def)

lemma add_flow_cases:
  fixes qsTr eng shape level volume
  defines "p \<equiv> stringToPointArray eng shape"
  defines "q \<equiv> sort_points (p @ [[ToNumber eng level, ToNumber eng volume]])"
  assumes ok: "shape_ok p" and ed: "editbox level" "editbox volume"
  shows "shape_ok q \<Longrightarrow> add_flow qsTr eng shape level volume = Stored (pointArrayToString eng q)"
    and "\<not> shape_ok q \<Longrightarrow> \<exists>msg. add_flow qsTr eng shape level volume = Toast msg"
proof -
  let ?lvl = "ToNumber eng level" and ?vol = "ToNumber eng volume"
  have setq: "set q = insert [?lvl, ?vol] (set p)" and lenq: "length q = Suc (length p)"
    by (simp_all add: q_def set_sort_points length_sort_points)
  have flow: "add_flow qsTr eng shape level volume =
      (if 9 < length p then Toast ''Max 10 points allowed''
       else if js_lt ?lvl (Fin 1) \<or> js_lt (Fin 99) ?lvl then Toast ''Invalid sensor level''
       else if js_lt ?vol (Fin 1) \<or> js_lt (Fin 99) ?vol then Toast ''Invalid volume''
       else case check_points qsTr q of Some msg \<Rightarrow> Toast msg
            | None \<Rightarrow> Stored (pointArrayToString eng q))"
    unfolding p_def q_def
    by (simp add: add_flow_def PageTankShape_addPoint_def addPoint_def Let_def)
  {
    assume okq: "shape_ok q"
    then have pq: "pairs_of percent q" and inc: "increasing 0 q" "increasing 1 q"
      and len: "length q \<le> 10"
      by (simp_all add: shape_ok_def)
    have "[?lvl, ?vol] \<in> set q" by (simp add: setq)
    from pairs_of_elem [OF pq this] have "percent ?lvl" "percent ?vol"
      by (simp_all add: elem_def)
    then have "\<not> js_lt ?lvl (Fin 1)" "\<not> js_lt (Fin 99) ?lvl"
      "\<not> js_lt ?vol (Fin 1)" "\<not> js_lt (Fin 99) ?vol"
      by (simp_all add: percent_range)
    moreover have "\<not> 9 < length p" using len lenq by simp
    moreover have "check_points qsTr q = None" using inc by (rule increasing_check_points)
    ultimately show "add_flow qsTr eng shape level volume = Stored (pointArrayToString eng q)"
      by (simp add: flow)
  }
  {
    assume nok: "\<not> shape_ok q"
    show "\<exists>msg. add_flow qsTr eng shape level volume = Toast msg"
    proof (rule ccontr)
      assume no: "\<not> (\<exists>msg. add_flow qsTr eng shape level volume = Toast msg)"
      then have len: "\<not> 9 < length p"
        and rl: "\<not> js_lt ?lvl (Fin 1)" "\<not> js_lt (Fin 99) ?lvl"
        and rv: "\<not> js_lt ?vol (Fin 1)" "\<not> js_lt (Fin 99) ?vol"
        by (auto simp: flow split: if_splits)
      with no have chk: "check_points qsTr q = None"
        by (auto simp: flow split: option.splits)
      have "percent ?lvl" "percent ?vol"
        using ed rl rv by (simp_all add: editbox_percent)
      moreover from ok have "pairs_of percent p" by (simp add: shape_ok_def)
      ultimately have pq: "pairs_of percent q"
        by (auto simp: pairs_of_def setq)
      from check_points_increasing [OF chk pq] pq len lenq have "shape_ok q"
        by (simp add: shape_ok_def)
      with nok show False by contradiction
    qed
  }
qed

lemma stored_shape_ok:
  assumes "stored_shape qsTr eng shape"
  shows "shape_ok (stringToPointArray eng shape)"
  using assms
proof (induction rule: stored_shape.induct)
  case unset
  show ?case by (simp add: stringToPointArray_def shape_ok_Nil)
next
  case empty
  show ?case by (simp add: stringToPointArray_def shape_ok_Nil)
next
  case (add shape level volume)
  let ?q = "sort_points (stringToPointArray eng shape @ [[ToNumber eng level, ToNumber eng volume]])"
  show ?case
  proof (cases "shape_ok ?q")
    case True
    from add_flow_cases(1) [OF add.IH add.hyps(2,3) True, where qsTr = qsTr]
    have "add_flow qsTr eng shape level volume = Stored (pointArrayToString eng ?q)" .
    with True show ?thesis by (simp add: shape_ok_roundtrip)
  next
    case False
    from add_flow_cases(2) [OF add.IH add.hyps(2,3) False, where qsTr = qsTr] add.IH
    show ?thesis by auto
  qed
next
  case (remove shape currentIndex)
  from remove.IH have "shape_ok (splice1 (stringToPointArray eng shape) currentIndex)"
    by (rule shape_ok_splice1)
  then show ?case by (simp add: removePoint_def shape_ok_roundtrip)
qed

text \<open>
  C8. Every shape that the two pages store, starting from a shape that is not set or is
  empty, is a sequence of at most ten points, each a pair of integers from 1 to 99, with
  levels and volumes both strictly increasing. Adding a point with the texts of the two
  edit boxes considers the old points and the new one, arranged by level: when that
  sequence meets the conditions it is stored, and reads back as that sequence; when it
  violates one of them, the length of ten included, a toast is shown and the stored shape
  stays as it was.
\<close>

theorem add_point_invariant:
  "stored_shape qsTr eng shape \<longrightarrow>
     shape_ok (stringToPointArray eng shape) \<and>
     (editbox level \<and> editbox volume \<longrightarrow>
        (let p = stringToPointArray eng shape;
             new = [ToNumber eng level, ToNumber eng volume];
             q = sort_points (p @ [new]);
             result = add_flow qsTr eng shape level volume
         in set q = insert new (set p) \<and> length q = length p + 1 \<and>
            (if shape_ok q
             then result = Stored (pointArrayToString eng q) \<and>
                  stringToPointArray eng (shape_after shape result) = q
             else (\<exists>msg. result = Toast msg) \<and> shape_after shape result = shape)))"
proof (intro impI conjI)
  assume st: "stored_shape qsTr eng shape"
  then show ok: "shape_ok (stringToPointArray eng shape)" by (rule stored_shape_ok)
  assume ed: "editbox level \<and> editbox volume"
  let ?q = "sort_points (stringToPointArray eng shape @ [[ToNumber eng level, ToNumber eng volume]])"
  note c = add_flow_cases [OF ok conjunct1 [OF ed] conjunct2 [OF ed], where qsTr = qsTr]
  show "let p = stringToPointArray eng shape;
            new = [ToNumber eng level, ToNumber eng volume];
            q = sort_points (p @ [new]);
            result = add_flow qsTr eng shape level volume
        in set q = insert new (set p) \<and> length q = length p + 1 \<and>
           (if shape_ok q
            then result = Stored (pointArrayToString eng q) \<and>
                 stringToPointArray eng (shape_after shape result) = q
            else (\<exists>msg. result = Toast msg) \<and> shape_after shape result = shape)"
  proof (cases "shape_ok ?q")
    case True
    with c(1) show ?thesis
      by (simp add: Let_def set_sort_points length_sort_points shape_ok_roundtrip)
  next
    case False
    with c(2) show ?thesis
      by (auto simp: Let_def set_sort_points length_sort_points)
  qed
qed

theorem add_point_invariant_witness:
  "stored_shape id plain_engine (Some ''10:20'') \<and>
   shape_ok (stringToPointArray plain_engine (Some ''10:20'')) \<and>
   add_flow id plain_engine (Some ''10:20'') ''30'' ''40'' = Stored ''10:20,30:40'' \<and>
   (\<exists>msg. add_flow id plain_engine (Some ''10:20'') ''30'' ''20'' = Toast msg)"
proof -
  note ev = stringToPointArray_def ToNumber_def unsigned_num_def is_digit_def digits_val_def
    digit_val_def sort_points_def elem_def js_sub_def round64_numeral js_lt_def
  have e: "editbox ''10''" "editbox ''20''" "editbox ''30''" "editbox ''40''"
    by (simp_all add: editbox_def is_digit_def)
  have d: "digits 10 = ''10''" "digits 20 = ''20''" "digits 30 = ''30''" "digits 40 = ''40''"
    by code_simp+
  have s: "pointArrayToString plain_engine [[Fin 10, Fin 20]] = ''10:20''"
    "pointArrayToString plain_engine [[Fin 10, Fin 20], [Fin 30, Fin 40]] = ''10:20,30:40''"
    by (simp_all add: pointArrayToString_def ToString_def d)
  have ok: "shape_ok [[Fin 10, Fin 20]]" "shape_ok [[Fin 10, Fin 20], [Fin 30, Fin 40]]"
    "\<not> shape_ok [[Fin 10, Fin 20], [Fin 30, Fin 20]]"
    by (simp_all add: shape_ok_def pairs_of_def percent_def increasing_def elem_def)
  have "stored_shape id plain_engine None" by (rule stored_shape.unset)
  from add_point_invariant [of id plain_engine None "''10''" "''20''"] this e ok s
  have "add_flow id plain_engine None ''10'' ''20'' = Stored ''10:20''"
    by (simp add: ev Let_def)
  with stored_shape.add [OF stored_shape.unset e(1,2), of id plain_engine]
  have st: "stored_shape id plain_engine (Some ''10:20'')" by simp
  from add_point_invariant [of id plain_engine "Some ''10:20''" "''30''" "''40''"]
    add_point_invariant [of id plain_engine "Some ''10:20''" "''30''" "''20''"] st e ok s
  show ?thesis
    by (simp add: ev Let_def)
qed

section \<open>Uninstalling\<close>

lemma settings_uninstall:
  "settings (uninstall nc s) =
     settings s |` (- set (if nc then incoming_keys @ custom_name_keys else incoming_keys))"
  by (simp add: uninstall_def Let_def RemoveSettings_def logMessage_def removeService_def
      restoreActiveFile_def)

lemma uninstall_flags:
  "\<not> service_installed (uninstall nc s)" "\<not> overview_replaced (uninstall nc s)"
  by (simp_all add: uninstall_def Let_def RemoveSettings_def logMessage_def removeService_def
      restoreActiveFile_def)

text \<open>
  C4, as stated, fails: uninstalling on a platform that is still compatible removes the
  two settings of the incoming service only, and the custom name of tank 0 is still in
  the settings afterwards.
\<close>

theorem uninstall_keeps_custom_names:
  "settings (setup_script UNINSTALL False NONE example_venus)
     ''Devices/TankRepeater/Tank0/CustomName'' = Some ''Bow''"
  by (simp add: setup_script_def Let_def settings_uninstall example_venus_def incoming_keys_def
      restrict_map_def)

text \<open>
  C4, amended. Uninstalling, from any state and whether the action comes from
  SetupHelper or from the prompt, removes the repeater service, puts the original
  overview page back and deletes the settings \<^verbatim>\<open>IncomingTankService\<close> and
  \<^verbatim>\<open>IncomingTankProductId\<close>. The \<^verbatim>\<open>CustomName\<close> settings of the 14 tanks are deleted when
  the platform is not compatible any more; otherwise every other setting, the custom
  names included, is kept. No setting outside of these 16 is ever touched.
\<close>

theorem uninstall_effect:
  "(if scriptAction = NONE then answer else scriptAction) = UNINSTALL \<longrightarrow>
   (let s' = setup_script scriptAction notCompatible answer s
    in \<not> service_installed s' \<and> \<not> overview_replaced s' \<and>
       (\<forall>k \<in> set incoming_keys. settings s' k = None) \<and>
       (notCompatible \<longrightarrow> (\<forall>k \<in> set custom_name_keys. settings s' k = None)) \<and>
       (\<not> notCompatible \<longrightarrow> (\<forall>k. k \<notin> set incoming_keys \<longrightarrow> settings s' k = settings s k)) \<and>
       (\<forall>k. k \<notin> set incoming_keys \<and> k \<notin> set custom_name_keys \<longrightarrow>
            settings s' k = settings s k))"
  using uninstall_flags [of notCompatible s]
  by (auto simp: setup_script_def Let_def settings_uninstall restrict_map_def)

theorem uninstall_effect_witness:
  "\<not> service_installed (setup_script UNINSTALL True NONE example_venus) \<and>
   settings (setup_script UNINSTALL True NONE example_venus)
     ''Devices/TankRepeater/Tank0/CustomName'' = None \<and>
   settings (setup_script NONE False UNINSTALL example_venus)
     ''Devices/TankRepeater/IncomingTankService'' = None \<and>
   settings (setup_script NONE False UNINSTALL example_venus)
     ''Devices/TankRepeater/Tank0/CustomName'' =
     settings example_venus ''Devices/TankRepeater/Tank0/CustomName''"
  using uninstall_effect [of UNINSTALL NONE True example_venus]
    uninstall_effect [of NONE UNINSTALL False example_venus]
  by (simp add: Let_def incoming_keys_def custom_name_keys_def)

section \<open>The capacity of the registry\<close>

lemma slot_where_None: "slot_where P es i = None \<longleftrightarrow> (\<forall>e \<in> set es. \<not> P e)"
  by (induction es arbitrary: i) auto

lemma slot_where_first:
  assumes "j < length es" "P (es ! j)" "\<forall>i < j. \<not> P (es ! i)"
  shows "slot_where P es n = Some (n + j)"
  using assms
proof (induction es arbitrary: j n)
  case Nil
  then show ?case by simp
next
  case (Cons e es)
  show ?case
  proof (cases j)
    case 0
    with Cons.prems show ?thesis by simp
  next
    case (Suc j')
    with Cons.prems have "\<not> P e" by auto
    moreover have "slot_where P es (Suc n) = Some (Suc n + j')"
      using Cons.prems Suc by (intro Cons.IH) auto
    ultimately show ?thesis using Suc by simp
  qed
qed

text \<open>
  C3. When each of the 14 slots of the registry holds a tank and a key that no slot holds
  arrives, \<^verbatim>\<open>lookupOrCreate\<close> fails with \<^verbatim>\<open>CapacityExceeded\<close>; the coordinator drops the
  update, which leaves the registry and everything published as they were. After the
  teardown of any one slot the same new key is accepted, and gets that slot.
\<close>

theorem registry_capacity:
  "length reg = slots \<and> (\<forall>e \<in> set reg. e \<noteq> None \<and> \<not> holds_key k e) \<longrightarrow>
     lookupOrCreate k now reg = Inl CapacityExceeded \<and>
     (the_registry c = reg \<longrightarrow>
        the_registry (processUpdate k reading now c) = reg \<and>
        published (processUpdate k reading now c) = published c) \<and>
     (slot < slots \<longrightarrow>
        lookupOrCreate k now (the_registry (teardown slot (c\<lparr>the_registry := reg\<rparr>))) =
          Inr ((slot, True),
               reg[slot := Some \<lparr>entry_key = k, entry_customName = '''',
                                 lastSeenMonotonic = now, entry_connected = True\<rparr>]))"
proof (intro impI conjI)
  assume a: "length reg = slots \<and> (\<forall>e \<in> set reg. e \<noteq> None \<and> \<not> holds_key k e)"
  then have nk: "slot_where (holds_key k) reg 0 = None"
    and nf: "slot_where (\<lambda>e. e = None) reg 0 = None"
    by (simp_all add: slot_where_None)
  then show full: "lookupOrCreate k now reg = Inl CapacityExceeded"
    by (simp add: lookupOrCreate_def)
  {
    assume "the_registry c = reg"
    with full show "the_registry (processUpdate k reading now c) = reg"
      and "published (processUpdate k reading now c) = published c"
      by (simp_all add: processUpdate_def)
  }
  {
    assume s: "slot < slots"
    let ?reg = "reg[slot := None]"
    have "\<forall>e \<in> set ?reg. \<not> holds_key k e"
      using a set_update_subset_insert [of reg slot None] by (auto simp: holds_key_def)
    then have nk': "slot_where (holds_key k) ?reg 0 = None"
      by (simp add: slot_where_None)
    have "slot_where (\<lambda>e. e = None) ?reg 0 = Some (0 + slot)"
    proof (rule slot_where_first)
      show "slot < length ?reg" using a s by simp
      show "?reg ! slot = None" using a s by simp
      show "\<forall>i < slot. \<not> ?reg ! i = None" using a s by (auto simp: all_set_conv_all_nth)
    qed
    then show "lookupOrCreate k now (the_registry (teardown slot (c\<lparr>the_registry := reg\<rparr>))) =
          Inr ((slot, True),
               reg[slot := Some \<lparr>entry_key = k, entry_customName = '''',
                                 lastSeenMonotonic = now, entry_connected = True\<rparr>])"
      using nk' by (simp add: lookupOrCreate_def teardown_def registry_remove_def)
  }
qed

theorem registry_capacity_witness:
  "lookupOrCreate 14 7 full_registry = Inl CapacityExceeded \<and>
   the_registry (processUpdate 14 (80 :: nat) 7
      \<lparr>the_registry = full_registry, published = Map.empty, warned = False\<rparr>) = full_registry \<and>
   lookupOrCreate 14 7 (the_registry (teardown 3
      \<lparr>the_registry = full_registry, published = (Map.empty :: nat \<rightharpoonup> nat), warned = False\<rparr>)) =
     Inr ((3, True),
          full_registry[3 := Some \<lparr>entry_key = 14, entry_customName = '''',
                                    lastSeenMonotonic = 7, entry_connected = True\<rparr>])"
proof -
  have "length full_registry = slots \<and> (\<forall>e \<in> set full_registry. e \<noteq> None \<and> \<not> holds_key 14 e)"
    by (auto simp: full_registry_def slots_def holds_key_def)
  moreover have "(3 :: nat) < slots" by (simp add: slots_def)
  ultimately show ?thesis
    using registry_capacity [of full_registry 14 7
        "\<lparr>the_registry = full_registry, published = (Map.empty :: nat \<rightharpoonup> nat), warned = False\<rparr>"
        80 3]
    by simp
qed

end
